theory Spec2Isabelle
  imports Complex_Main "HOL-Library.Multiset"
begin

section \<open>Results of Go code: panics and missing fuel as values\<close>

text \<open>
  A Go pointer is \<open>nat option\<close>: \<open>None\<close> is \<open>nil\<close>, \<open>Some a\<close> is the object at
  index \<open>a\<close> of its arena (a list that only grows, so that every allocation is fresh).
  A run-time panic is an \<open>error\<close>; a loop that has no bound in the source takes fuel and
  answers \<open>OutOfFuel\<close> when it is spent.
\<close>

datatype error =
    NilDeref          \<comment> \<open>nil pointer dereference\<close>
  | BadRef            \<comment> \<open>an index outside its arena: no Go pointer is like that\<close>
  | IndexOutOfRange   \<comment> \<open>slice index out of range\<close>
  | NoArcAbove        \<comment> \<open>the explicit \<open>panic\<close> of \<open>findNodeAbove\<close>\<close>
  | OutOfFuel

definition bindE :: "error + 'a \<Rightarrow> ('a \<Rightarrow> error + 'b) \<Rightarrow> error + 'b" where
  "bindE m f = (case m of Inl e \<Rightarrow> Inl e | Inr x \<Rightarrow> f x)"

section \<open>Circle-event participation lists (\<open>CircleEvents\<close>)\<close>

text \<open>
  \<open>type CircleEvents []*Event\<close>: a slice of event pointers, here the list of their
  indices. \<open>RemoveEvent\<close> walks the slice from its last index down; on a hit it moves the
  last element into the hole and cuts the slice by one. The index \<open>i\<close> is a Go \<open>int\<close>
  and the loop runs while \<open>i >= 0\<close>; an index at or beyond the current length would
  panic.
\<close>

function RemoveEvent_loop :: "nat \<Rightarrow> int \<Rightarrow> nat list \<Rightarrow> error + nat list" where
  "RemoveEvent_loop event i ce =
     (if i \<ge> 0 then
        (if nat i < length ce then
           (if ce ! nat i = event
            then RemoveEvent_loop event (i - 1)
                   (take (length ce - 1) (ce[nat i := ce ! (length ce - 1)]))
            else RemoveEvent_loop event (i - 1) ce)
         else Inl IndexOutOfRange)
      else Inr ce)"
  by pat_completeness auto
termination
  by (relation "measure (\<lambda>(event, i, ce). nat (i + 1))") auto

definition RemoveEvent :: "nat \<Rightarrow> nat list \<Rightarrow> error + nat list" where
  "RemoveEvent event ce = RemoveEvent_loop event (int (length ce) - 1) ce"

primrec HasEvent :: "nat \<Rightarrow> nat list \<Rightarrow> bool" where
  "HasEvent event [] = False"
| "HasEvent event (x # xs) = (if x = event then True else HasEvent event xs)"

section \<open>Data model\<close>

text \<open>
  The declarations of \<open>Site\<close> and \<open>Event\<close> are not among the sources; their fields are
  the ones the code under \<open>src\<close> reads and writes (\<open>site.X\<close>, \<open>event.Site.Face\<close>,
  \<open>e.index\<close>, the \<open>Site{X, Y, ID}\<close> and \<open>Event{EventType, X, Y, Radius}\<close> literals).
  The fields \<open>X\<close>, \<open>Y\<close>, \<open>Node\<close> and \<open>Site\<close> of an event are \<open>Event_X\<close>,
  \<open>Event_Y\<close>, \<open>Event_Node\<close> and \<open>Event_Site\<close> here. A Go \<open>int\<close> is an \<open>int\<close>; the
  two places that compute with it (\<open>y + r\<close>, \<open>event.Y - event.Radius\<close>) wrap at 64 bits.
\<close>

datatype EventType = EventSite | EventCircle

record site =
  X :: int
  Y :: int
  ID :: int
  Face :: "nat option"

record event =
  EventType :: EventType
  Event_X :: int
  Event_Y :: int
  Radius :: int
  Event_Node :: "nat option"
  Event_Site :: "nat option"
  index :: int

record node =
  Site :: "nat option"
  LeftEvents :: "nat list"
  MiddleEvents :: "nat list"
  RightEvents :: "nat list"
  Parent :: "nat option"
  Left :: "nat option"
  Right :: "nat option"
  LeftEdges :: "nat list"
  RightEdges :: "nat list"

definition wrap64 :: "int \<Rightarrow> int" where
  "wrap64 i = (i + 2 ^ 63) mod 2 ^ 64 - 2 ^ 63"

text \<open>\<open>&Node{Site: s, Parent: p}\<close>: every field the literal leaves out is nil or empty.\<close>

definition newNode :: "nat option \<Rightarrow> nat option \<Rightarrow> node" where
  "newNode s p = \<lparr>Site = s, LeftEvents = [], MiddleEvents = [], RightEvents = [],
     Parent = p, Left = None, Right = None, LeftEdges = [], RightEdges = []\<rparr>"

subsection \<open>The planar graph (package \<open>dcel\<close>)\<close>

text \<open>
  Modelled from the spec: the planar-graph collaborator is the external package
  \<open>dcel\<close>. It owns vertices, faces and half-edges, creates a face per site and a pair of
  twin half-edges for a new boundary between two faces, the first of them starting at the
  given vertex. Vertices, faces and half-edges are the indices of three lists.
\<close>

record face =
  FaceID :: int
  Data :: "nat option"

record halfedge =
  HalfEdgeFace :: "nat option"
  Origin :: "nat option"
  Twin :: "nat option"

record dcel =
  Vertices :: "(int \<times> int) list"
  Faces :: "face list"
  HalfEdges :: "halfedge list"

definition NewDCEL :: dcel where
  "NewDCEL = \<lparr>Vertices = [], Faces = [], HalfEdges = []\<rparr>"

definition NewFace :: "dcel \<Rightarrow> nat \<times> dcel" where
  "NewFace d = (length (Faces d), d\<lparr>Faces := Faces d @ [\<lparr>FaceID = 0, Data = None\<rparr>]\<rparr>)"

definition NewVertex :: "int \<Rightarrow> int \<Rightarrow> dcel \<Rightarrow> nat \<times> dcel" where
  "NewVertex x y d = (length (Vertices d), d\<lparr>Vertices := Vertices d @ [(x, y)]\<rparr>)"

definition NewEdge :: "nat option \<Rightarrow> nat option \<Rightarrow> nat \<Rightarrow> dcel \<Rightarrow> (nat \<times> nat) \<times> dcel" where
  "NewEdge face1 face2 vertex d =
     (let h = length (HalfEdges d) in
      ((h, h + 1),
       d\<lparr>HalfEdges := HalfEdges d @
           [\<lparr>HalfEdgeFace = face1, Origin = Some vertex, Twin = Some (h + 1)\<rparr>,
            \<lparr>HalfEdgeFace = face2, Origin = None, Twin = Some h\<rparr>]\<rparr>))"

subsection \<open>The state of one computation\<close>

text \<open>
  \<open>Voronoi\<close> with the two arenas its pointers lead into: \<open>nodes\<close> for \<open>*Node\<close> and
  \<open>events\<close> for \<open>*Event\<close>. A \<open>*Site\<close> is an index of \<open>Sites\<close>. The event queue is
  the list of the queued events.
\<close>

record voronoi =
  Bounds :: "(int \<times> int) \<times> (int \<times> int)"
  Sites :: "site list"
  EventQueue :: "nat list"
  ParabolaTree :: "nat option"
  SweepLine :: int
  DCEL :: dcel
  nodes :: "node list"
  events :: "event list"

definition getNode :: "node list \<Rightarrow> nat option \<Rightarrow> error + node" where
  "getNode ns p =
     (case p of None \<Rightarrow> Inl NilDeref
      | Some a \<Rightarrow> if a < length ns then Inr (ns ! a) else Inl BadRef)"

definition getSite :: "site list \<Rightarrow> nat option \<Rightarrow> error + site" where
  "getSite ss p =
     (case p of None \<Rightarrow> Inl NilDeref
      | Some a \<Rightarrow> if a < length ss then Inr (ss ! a) else Inl BadRef)"

definition getEvent :: "event list \<Rightarrow> nat \<Rightarrow> error + event" where
  "getEvent es e = (if e < length es then Inr (es ! e) else Inl BadRef)"

text \<open>An assignment through a pointer that was dereferenced before: \<open>n.f = ...\<close>.\<close>

definition updNode :: "nat \<Rightarrow> (node \<Rightarrow> node) \<Rightarrow> voronoi \<Rightarrow> voronoi" where
  "updNode a f v = v\<lparr>nodes := (nodes v)[a := f (nodes v ! a)]\<rparr>"

definition updEvent :: "nat \<Rightarrow> (event \<Rightarrow> event) \<Rightarrow> voronoi \<Rightarrow> voronoi" where
  "updEvent e f v = v\<lparr>events := (events v)[e := f (events v ! e)]\<rparr>"

definition modNode :: "nat option \<Rightarrow> (node \<Rightarrow> node) \<Rightarrow> voronoi \<Rightarrow> error + voronoi" where
  "modNode p f v = bindE (getNode (nodes v) p) (\<lambda>_. Inr (updNode (the p) f v))"

section \<open>The beach-line tree (\<open>Node\<close>)\<close>

definition IsLeaf :: "node list \<Rightarrow> nat option \<Rightarrow> error + bool" where
  "IsLeaf ns n = bindE (getNode ns n) (\<lambda>nd. Inr (Left nd = None \<and> Right nd = None))"

fun PrevChildArc_loop :: "nat \<Rightarrow> node list \<Rightarrow> nat option \<Rightarrow> error + nat option" where
  "PrevChildArc_loop 0 ns left = Inl OutOfFuel"
| "PrevChildArc_loop (Suc k) ns left =
     bindE (IsLeaf ns left) (\<lambda>leaf.
       if \<not> leaf then bindE (getNode ns left) (\<lambda>nd. PrevChildArc_loop k ns (Right nd))
       else Inr left)"

definition PrevChildArc :: "nat \<Rightarrow> node list \<Rightarrow> nat option \<Rightarrow> error + nat option" where
  "PrevChildArc k ns n = bindE (getNode ns n) (\<lambda>nd. PrevChildArc_loop k ns (Left nd))"

fun NextChildArc_loop :: "nat \<Rightarrow> node list \<Rightarrow> nat option \<Rightarrow> error + nat option" where
  "NextChildArc_loop 0 ns right = Inl OutOfFuel"
| "NextChildArc_loop (Suc k) ns right =
     bindE (IsLeaf ns right) (\<lambda>leaf.
       if \<not> leaf then bindE (getNode ns right) (\<lambda>nd. NextChildArc_loop k ns (Left nd))
       else Inr right)"

definition NextChildArc :: "nat \<Rightarrow> node list \<Rightarrow> nat option \<Rightarrow> error + nat option" where
  "NextChildArc k ns n = bindE (getNode ns n) (\<lambda>nd. NextChildArc_loop k ns (Right nd))"

fun FirstArc :: "nat \<Rightarrow> node list \<Rightarrow> nat option \<Rightarrow> error + nat option" where
  "FirstArc 0 ns first = Inl OutOfFuel"
| "FirstArc (Suc k) ns first =
     (if first \<noteq> None then
        bindE (IsLeaf ns first) (\<lambda>leaf.
          if \<not> leaf then
            bindE (getNode ns first) (\<lambda>nd.
              if Left nd \<noteq> None then FirstArc k ns (Left nd) else FirstArc k ns (Right nd))
          else Inr first)
      else Inr first)"

fun LastArc :: "nat \<Rightarrow> node list \<Rightarrow> nat option \<Rightarrow> error + nat option" where
  "LastArc 0 ns lastN = Inl OutOfFuel"
| "LastArc (Suc k) ns lastN =
     (if lastN \<noteq> None then
        bindE (IsLeaf ns lastN) (\<lambda>leaf.
          if \<not> leaf then
            bindE (getNode ns lastN) (\<lambda>nd.
              if Right nd \<noteq> None then LastArc k ns (Right nd) else LastArc k ns (Left nd))
          else Inr lastN)
      else Inr lastN)"

text \<open>
  The loop of \<open>PrevArc\<close> climbs while the node is the left child of its parent, and
  returns nil from inside when the parent is the root. What follows the loop (the left
  sibling, or its last arc) is the branch taken when the loop condition fails.
\<close>

fun PrevArc_loop :: "nat \<Rightarrow> node list \<Rightarrow> nat \<Rightarrow> nat \<Rightarrow> error + nat option" where
  "PrevArc_loop 0 ns parent nd = Inl OutOfFuel"
| "PrevArc_loop (Suc k) ns parent nd =
     bindE (getNode ns (Some parent)) (\<lambda>p.
       if Left p = Some nd then
         (case Parent p of None \<Rightarrow> Inr None
          | Some pp \<Rightarrow> PrevArc_loop k ns pp parent)
       else
         bindE (IsLeaf ns (Left p)) (\<lambda>leaf.
           if leaf then Inr (Left p) else LastArc k ns (Left p)))"

definition PrevArc :: "nat \<Rightarrow> node list \<Rightarrow> nat option \<Rightarrow> error + nat option" where
  "PrevArc k ns n =
     (case n of None \<Rightarrow> Inr None
      | Some a \<Rightarrow>
          bindE (IsLeaf ns n) (\<lambda>leaf.
            if \<not> leaf then LastArc k ns n
            else bindE (getNode ns n) (\<lambda>nd.
              case Parent nd of None \<Rightarrow> Inr None
              | Some parent \<Rightarrow> PrevArc_loop k ns parent a)))"

fun NextArc_loop :: "nat \<Rightarrow> node list \<Rightarrow> nat \<Rightarrow> nat \<Rightarrow> error + nat option" where
  "NextArc_loop 0 ns parent nd = Inl OutOfFuel"
| "NextArc_loop (Suc k) ns parent nd =
     bindE (getNode ns (Some parent)) (\<lambda>p.
       if Right p = Some nd then
         (case Parent p of None \<Rightarrow> Inr None
          | Some pp \<Rightarrow> NextArc_loop k ns pp parent)
       else
         bindE (IsLeaf ns (Right p)) (\<lambda>leaf.
           if leaf then Inr (Right p) else FirstArc k ns (Right p)))"

definition NextArc :: "nat \<Rightarrow> node list \<Rightarrow> nat option \<Rightarrow> error + nat option" where
  "NextArc k ns n =
     (case n of None \<Rightarrow> Inr None
      | Some a \<Rightarrow>
          bindE (IsLeaf ns n) (\<lambda>leaf.
            if \<not> leaf then FirstArc k ns n
            else bindE (getNode ns n) (\<lambda>nd.
              case Parent nd of None \<Rightarrow> Inr None
              | Some parent \<Rightarrow> NextArc_loop k ns parent a)))"

definition AddLeftEvent :: "nat option \<Rightarrow> nat \<Rightarrow> voronoi \<Rightarrow> error + voronoi" where
  "AddLeftEvent n event v = modNode n (\<lambda>nd. nd\<lparr>LeftEvents := LeftEvents nd @ [event]\<rparr>) v"

definition AddMiddleEvent :: "nat option \<Rightarrow> nat \<Rightarrow> voronoi \<Rightarrow> error + voronoi" where
  "AddMiddleEvent n event v = modNode n (\<lambda>nd. nd\<lparr>MiddleEvents := MiddleEvents nd @ [event]\<rparr>) v"

definition AddRightEvent :: "nat option \<Rightarrow> nat \<Rightarrow> voronoi \<Rightarrow> error + voronoi" where
  "AddRightEvent n event v = modNode n (\<lambda>nd. nd\<lparr>RightEvents := RightEvents nd @ [event]\<rparr>) v"

text \<open>\<open>Node.RemoveEvent\<close>: the event leaves the three lists of the node, one after the other.\<close>

definition Node_RemoveEvent :: "nat option \<Rightarrow> nat \<Rightarrow> voronoi \<Rightarrow> error + voronoi" where
  "Node_RemoveEvent n event v =
     bindE (getNode (nodes v) n) (\<lambda>nd.
     bindE (RemoveEvent event (LeftEvents nd)) (\<lambda>l.
     bindE (RemoveEvent event (MiddleEvents nd)) (\<lambda>m.
     bindE (RemoveEvent event (RightEvents nd)) (\<lambda>r.
       Inr (updNode (the n) (\<lambda>nd. nd\<lparr>LeftEvents := l, MiddleEvents := m, RightEvents := r\<rparr>) v)))))"

section \<open>The event queue\<close>

text \<open>
  Modelled from the spec: \<open>EventQueue\<close>, its constructor and its methods are not among the
  sources. The spec has a priority queue ordered by the trigger y, ties going by insertion
  order, with \<open>push\<close>, \<open>popMin\<close> and \<open>remove\<close> of a queued event; each event stores its
  slot in the queue, and that token is a sentinel once the event has left the queue. The
  code under \<open>src\<close> only tests the token against \<open>-1\<close>, so a queued event carries the slot
  it was pushed at. The constructor seeds one site event per site.
\<close>

definition NewEventQueue :: "site list \<Rightarrow> nat list \<times> event list" where
  "NewEventQueue ss =
     ([0..<length ss],
      map (\<lambda>i. \<lparr>EventType = EventSite, Event_X = X (ss ! i), Event_Y = Y (ss ! i), Radius = 0,
                 Event_Node = None, Event_Site = Some i, index = int i\<rparr>) [0..<length ss])"

definition EventQueue_Pop :: "voronoi \<Rightarrow> error + (nat \<times> voronoi)" where
  "EventQueue_Pop v =
     (if EventQueue v = [] then Inl IndexOutOfRange
      else if \<not> list_all (\<lambda>e. e < length (events v)) (EventQueue v) then Inl BadRef
      else
        let e = arg_min_list (\<lambda>e. Event_Y (events v ! e)) (EventQueue v) in
        Inr (e, updEvent e (\<lambda>ev. ev\<lparr>index := - 1\<rparr>)
                  (v\<lparr>EventQueue := remove1 e (EventQueue v)\<rparr>)))"

definition EventQueue_Push :: "nat \<Rightarrow> voronoi \<Rightarrow> voronoi" where
  "EventQueue_Push e v =
     updEvent e (\<lambda>ev. ev\<lparr>index := int (length (EventQueue v))\<rparr>)
       (v\<lparr>EventQueue := EventQueue v @ [e]\<rparr>)"

definition EventQueue_Remove :: "nat \<Rightarrow> voronoi \<Rightarrow> voronoi" where
  "EventQueue_Remove e v =
     updEvent e (\<lambda>ev. ev\<lparr>index := - 1\<rparr>) (v\<lparr>EventQueue := remove1 e (EventQueue v)\<rparr>)"

section \<open>Geometry\<close>

text \<open>
  Modelled from the spec: \<open>GetXOfInternalNode\<close> and \<open>GetYByX\<close> are not among the
  sources. The spec has the first compute the breakpoint x between the site of the
  predecessor leaf and the site of the successor leaf of an internal node at the sweep
  position, and the second the y of an arc at an x and the sweep position, both pure
  functions of the coordinates. The two formulas are parameters: \<open>BreakpointX\<close> (with
  \<open>None\<close> for the error return) and \<open>ParabolaY\<close>.
\<close>

record geometry =
  BreakpointX :: "int \<times> int \<Rightarrow> int \<times> int \<Rightarrow> int \<Rightarrow> int option"
  ParabolaY :: "int \<times> int \<Rightarrow> int \<Rightarrow> int \<Rightarrow> int"

definition GetXOfInternalNode ::
  "geometry \<Rightarrow> nat \<Rightarrow> voronoi \<Rightarrow> nat option \<Rightarrow> int \<Rightarrow> error + int option" where
  "GetXOfInternalNode G k v n directrix =
     bindE (PrevChildArc k (nodes v) n) (\<lambda>l.
     bindE (NextChildArc k (nodes v) n) (\<lambda>r.
     bindE (getNode (nodes v) l) (\<lambda>ln.
     bindE (getNode (nodes v) r) (\<lambda>rn.
     bindE (getSite (Sites v) (Site ln)) (\<lambda>ls.
     bindE (getSite (Sites v) (Site rn)) (\<lambda>rs.
       Inr (BreakpointX G (X ls, Y ls) (X rs, Y rs) directrix)))))))"

definition GetYByX :: "geometry \<Rightarrow> voronoi \<Rightarrow> nat option \<Rightarrow> int \<Rightarrow> int \<Rightarrow> error + int" where
  "GetYByX G v s x directrix =
     bindE (getSite (Sites v) s) (\<lambda>st. Inr (ParabolaY G (X st, Y st) x directrix))"

text \<open>
  \<open>calcCircle\<close> computes in \<open>float64\<close>. The model computes with real numbers: the
  conversions of the coordinates, the products, the quotients and the square root are
  exact. \<open>int(f)\<close> drops the fraction of \<open>f\<close>; \<open>math.Pow(u, 2)\<close> is the square and
  \<open>math.Pow(u, 0.5)\<close> the square root. The two error returns are \<open>Clockwise\<close> and
  \<open>NoCircle\<close>.
\<close>

datatype circle_error = Clockwise | NoCircle

definition toInt :: "real \<Rightarrow> int" where
  "toInt f = (if 0 \<le> f then \<lfloor>f\<rfloor> else \<lceil>f\<rceil>)"

definition calcCircle :: "site \<Rightarrow> site \<Rightarrow> site \<Rightarrow> circle_error + (int \<times> int \<times> int)" where
  "calcCircle site1 site2 site3 =
     (let x1 = real_of_int (X site1); y1 = real_of_int (Y site1);
          x2 = real_of_int (X site2); y2 = real_of_int (Y site2);
          x3 = real_of_int (X site3); y3 = real_of_int (Y site3);
          determinant = (x2 * y3 + x1 * y2 + y1 * x3) - (y1 * x2 + y2 * x3 + x1 * y3)
      in
      if determinant < 0 then Inl Clockwise
      else if x2 - x1 = 0 \<or> x3 - x2 = 0 then Inl NoCircle
      else
        let mr = (y2 - y1) / (x2 - x1);
            mt = (y3 - y2) / (x3 - x2)
        in
        if mr = mt \<or> mr - mt = 0 \<or> mr = 0 then Inl NoCircle
        else
          let cx = (mr * mt * (y3 - y1) + mr * (x2 + x3) - mt * (x1 + x2)) / (2 * (mr - mt));
              cy = (y1 + y2) / 2 - (cx - (x1 + x2) / 2) / mr;
              cr = sqrt ((x2 - cx)\<^sup>2 + (y2 - cy)\<^sup>2)
          in Inr (toInt (cx + 0.5), toInt (cy + 0.5), toInt (cr + 0.5)))"

section \<open>The sweep (\<open>Voronoi\<close>)\<close>

text \<open>
  Modelled from the spec: \<open>CloseTwins\<close> is not among the sources. The spec has it close
  a half-edge pair by assigning the vertex as origin; here each listed half-edge and its
  twin take the vertex as origin when they have none yet. It creates nothing.
\<close>

definition closeHalfEdge :: "nat \<Rightarrow> nat \<Rightarrow> dcel \<Rightarrow> error + dcel" where
  "closeHalfEdge h vertex d =
     (if h < length (HalfEdges d) then
        (if Origin (HalfEdges d ! h) = None
         then Inr (d\<lparr>HalfEdges := (HalfEdges d)[h := (HalfEdges d ! h)\<lparr>Origin := Some vertex\<rparr>]\<rparr>)
         else Inr d)
      else Inl BadRef)"

fun CloseTwins :: "nat list \<Rightarrow> nat \<Rightarrow> dcel \<Rightarrow> error + dcel" where
  "CloseTwins [] vertex d = Inr d"
| "CloseTwins (h # hs) vertex d =
     bindE (closeHalfEdge h vertex d) (\<lambda>d1.
       case Twin (HalfEdges d1 ! h) of
         None \<Rightarrow> CloseTwins hs vertex d1
       | Some t \<Rightarrow> bindE (closeHalfEdge t vertex d1) (\<lambda>d2. CloseTwins hs vertex d2))"

definition Reset :: "voronoi \<Rightarrow> voronoi" where
  "Reset v =
     (let (q, es) = NewEventQueue (Sites v) in
      v\<lparr>EventQueue := q, events := es, ParabolaTree := None, nodes := [],
        SweepLine := 0, DCEL := NewDCEL\<rparr>)"

definition New :: "site list \<Rightarrow> (int \<times> int) \<times> (int \<times> int) \<Rightarrow> voronoi" where
  "New sites bounds =
     (let (q, es) = NewEventQueue sites in
      \<lparr>Bounds = bounds, Sites = sites, EventQueue = q, ParabolaTree = None, SweepLine = 0,
       DCEL = NewDCEL, nodes = [], events = es\<rparr>)"

definition addCircleEvent ::
  "nat option \<Rightarrow> nat option \<Rightarrow> nat option \<Rightarrow> voronoi \<Rightarrow> error + voronoi" where
  "addCircleEvent arc1 arc2 arc3 v =
     (if arc1 = None \<or> arc2 = None \<or> arc3 = None then Inr v
      else
        bindE (getNode (nodes v) arc1) (\<lambda>n1.
        bindE (getNode (nodes v) arc2) (\<lambda>n2.
        bindE (getNode (nodes v) arc3) (\<lambda>n3.
        bindE (getSite (Sites v) (Site n1)) (\<lambda>site1.
        bindE (getSite (Sites v) (Site n2)) (\<lambda>site2.
        bindE (getSite (Sites v) (Site n3)) (\<lambda>site3.
          case calcCircle site1 site2 site3 of
            Inl err \<Rightarrow> Inr v
          | Inr (x, y, r) \<Rightarrow>
              let bottomY = wrap64 (y + r) in
              if bottomY < SweepLine v then Inr v
              else
                let event = length (events v);
                    v1 = v\<lparr>events := events v @
                           [\<lparr>EventType = EventCircle, Event_X = x, Event_Y = bottomY, Radius = r,
                             Event_Node = None, Event_Site = None, index = 0\<rparr>]\<rparr>;
                    v2 = EventQueue_Push event v1
                in
                bindE (AddLeftEvent arc1 event v2) (\<lambda>v3.
                bindE (AddMiddleEvent arc2 event v3) (\<lambda>v4.
                bindE (AddRightEvent arc3 event v4) (\<lambda>v5.
                  Inr (updEvent event (\<lambda>ev. ev\<lparr>Event_Node := arc2\<rparr>) v5)))))))))))"

definition removeArc :: "nat option \<Rightarrow> voronoi \<Rightarrow> error + voronoi" where
  "removeArc nd v =
     bindE (getNode (nodes v) nd) (\<lambda>n.
     let parent = Parent n in
     bindE (getNode (nodes v) parent) (\<lambda>p.
     let other = (if Left p = nd then Right p else Left p);
         grandParent = Parent p
     in
     if grandParent = None then
       bindE (modNode other (\<lambda>x. x\<lparr>Parent := None\<rparr>) (v\<lparr>ParabolaTree := other\<rparr>)) Inr
     else
       bindE (getNode (nodes v) grandParent) (\<lambda>g.
         if Left g = parent then
           bindE (modNode grandParent (\<lambda>x. x\<lparr>Left := other\<rparr>) v) (\<lambda>v1.
             modNode other (\<lambda>x. x\<lparr>Parent := grandParent\<rparr>) v1)
         else if Right g = parent then
           bindE (modNode grandParent (\<lambda>x. x\<lparr>Right := other\<rparr>) v) (\<lambda>v1.
             modNode other (\<lambda>x. x\<lparr>Parent := grandParent\<rparr>) v1)
         else Inr v)))"

fun removeCircleEvent_loop :: "nat list \<Rightarrow> voronoi \<Rightarrow> error + voronoi" where
  "removeCircleEvent_loop [] v = Inr v"
| "removeCircleEvent_loop (e # es) v =
     bindE (getEvent (events v) e) (\<lambda>ev.
       if index ev \<le> - 1 then removeCircleEvent_loop es v
       else removeCircleEvent_loop es (EventQueue_Remove e v))"

definition removeCircleEvent :: "nat \<Rightarrow> nat option \<Rightarrow> voronoi \<Rightarrow> error + voronoi" where
  "removeCircleEvent k middleNode v =
     (if middleNode = None then Inr v
      else
        bindE (getNode (nodes v) middleNode) (\<lambda>m.
          if length (MiddleEvents m) > 0 then
            bindE (removeCircleEvent_loop (MiddleEvents m) v) (\<lambda>v1.
            bindE (modNode middleNode (\<lambda>x. x\<lparr>MiddleEvents := []\<rparr>) v1) (\<lambda>v2.
            bindE (PrevArc k (nodes v2) middleNode) (\<lambda>prevArc.
            bindE (if prevArc \<noteq> None then modNode prevArc (\<lambda>x. x\<lparr>RightEvents := []\<rparr>) v2
                   else Inr v2) (\<lambda>v3.
            bindE (NextArc k (nodes v3) middleNode) (\<lambda>nextArc.
              if nextArc \<noteq> None then modNode nextArc (\<lambda>x. x\<lparr>LeftEvents := []\<rparr>) v3
              else Inr v3)))))
          else Inr v))"

fun RemoveEvent_each :: "nat option list \<Rightarrow> nat \<Rightarrow> voronoi \<Rightarrow> error + voronoi" where
  "RemoveEvent_each [] e v = Inr v"
| "RemoveEvent_each (n # neighbours) e v =
     bindE (Node_RemoveEvent n e v) (\<lambda>v1. RemoveEvent_each neighbours e v1)"

fun removeAllCircleEvents_loop ::
  "nat option list \<Rightarrow> nat list \<Rightarrow> voronoi \<Rightarrow> error + voronoi" where
  "removeAllCircleEvents_loop neighbours [] v = Inr v"
| "removeAllCircleEvents_loop neighbours (e # es) v =
     bindE (getEvent (events v) e) (\<lambda>ev.
       if index ev \<le> - 1 then removeAllCircleEvents_loop neighbours es v
       else
         bindE (RemoveEvent_each neighbours e (EventQueue_Remove e v)) (\<lambda>v1.
           removeAllCircleEvents_loop neighbours es v1))"

definition removeAllCircleEvents :: "nat \<Rightarrow> nat option \<Rightarrow> voronoi \<Rightarrow> error + voronoi" where
  "removeAllCircleEvents k nd v =
     (if nd = None then Inr v
      else
        bindE (modNode nd (\<lambda>x. x\<lparr>MiddleEvents := MiddleEvents x @ LeftEvents x\<rparr>) v) (\<lambda>v1.
        bindE (modNode nd (\<lambda>x. x\<lparr>MiddleEvents := MiddleEvents x @ RightEvents x\<rparr>) v1) (\<lambda>v2.
        bindE (PrevArc k (nodes v2) nd) (\<lambda>p.
        bindE (PrevArc k (nodes v2) p) (\<lambda>pp.
        bindE (NextArc k (nodes v2) nd) (\<lambda>n.
        bindE (NextArc k (nodes v2) n) (\<lambda>nn.
        let neighbours = [pp, p, n, nn] in
        bindE (getNode (nodes v2) nd) (\<lambda>x.
          if length (MiddleEvents x) > 0 then
            bindE (removeAllCircleEvents_loop neighbours (MiddleEvents x) v2) (\<lambda>v3.
              modNode nd (\<lambda>x. x\<lparr>LeftEvents := [], MiddleEvents := [], RightEvents := []\<rparr>) v3)
          else Inr v2))))))))"

text \<open>
  \<open>findNodeAbove\<close>: the descent from the root. The arguments of the trace line of an
  internal node, \<open>node.PrevChildArc()\<close> and \<open>node.NextChildArc()\<close>, are evaluated before
  the breakpoint; an error return of \<open>GetXOfInternalNode\<close> is the \<open>panic\<close>.
\<close>

fun findNodeAbove_loop ::
  "geometry \<Rightarrow> nat \<Rightarrow> voronoi \<Rightarrow> nat option \<Rightarrow> nat option \<Rightarrow> error + nat option" where
  "findNodeAbove_loop G 0 v site nd = Inl OutOfFuel"
| "findNodeAbove_loop G (Suc k) v site nd =
     bindE (IsLeaf (nodes v) nd) (\<lambda>leaf.
       if \<not> leaf then
         bindE (PrevChildArc k (nodes v) nd) (\<lambda>_.
         bindE (NextChildArc k (nodes v) nd) (\<lambda>_.
         bindE (GetXOfInternalNode G k v nd (SweepLine v)) (\<lambda>xr.
           case xr of
             None \<Rightarrow> Inl NoArcAbove
           | Some x \<Rightarrow>
               bindE (getSite (Sites v) site) (\<lambda>s.
               bindE (getNode (nodes v) nd) (\<lambda>n.
                 if X s < x then findNodeAbove_loop G k v site (Left n)
                 else findNodeAbove_loop G k v site (Right n))))))
       else Inr nd)"

definition findNodeAbove :: "geometry \<Rightarrow> nat \<Rightarrow> voronoi \<Rightarrow> nat option \<Rightarrow> error + nat option" where
  "findNodeAbove G k v site = findNodeAbove_loop G k v site (ParabolaTree v)"

definition allocNode :: "node \<Rightarrow> voronoi \<Rightarrow> nat \<times> voronoi" where
  "allocNode n v = (length (nodes v), v\<lparr>nodes := nodes v @ [n]\<rparr>)"

text \<open>
  The split of \<open>handleSiteEvent\<close>, statement by statement: the leaf \<open>arcAbove\<close> becomes
  an internal node over a new internal node (with the left copy and the new arc) and the
  right copy. It answers the new state with \<open>oldArcLeft\<close>, \<open>newArc\<close> and \<open>oldArcRight\<close>.
\<close>

definition splitArc :: "nat \<Rightarrow> nat option \<Rightarrow> voronoi \<Rightarrow> voronoi \<times> nat \<times> nat \<times> nat" where
  "splitArc arcAbove site v =
     (let a = nodes v ! arcAbove;
          (oldArcRight, v1) =
             allocNode ((newNode (Site a) (Some arcAbove))\<lparr>LeftEvents := LeftEvents a\<rparr>) v;
          v2 = updNode arcAbove (\<lambda>x. x\<lparr>Right := Some oldArcRight\<rparr>) v1;
          v3 = updNode oldArcRight (\<lambda>x. x\<lparr>RightEdges := RightEdges (nodes v2 ! arcAbove)\<rparr>) v2;
          (left, v4) = allocNode (newNode None (Some arcAbove)) v3;
          v5 = updNode arcAbove (\<lambda>x. x\<lparr>Left := Some left\<rparr>) v4;
          (newArc, v6) = allocNode (newNode site (Some left)) v5;
          v7 = updNode left (\<lambda>x. x\<lparr>Right := Some newArc\<rparr>) v6;
          a7 = nodes v7 ! arcAbove;
          (oldArcLeft, v8) =
             allocNode ((newNode (Site a7) (Some left))\<lparr>RightEvents := RightEvents a7\<rparr>) v7;
          v9 = updNode left (\<lambda>x. x\<lparr>Left := Some oldArcLeft\<rparr>) v8;
          v10 = updNode oldArcLeft (\<lambda>x. x\<lparr>LeftEdges := LeftEdges (nodes v9 ! arcAbove)\<rparr>) v9;
          v11 = updNode arcAbove
                  (\<lambda>x. x\<lparr>Site := None, LeftEvents := [], MiddleEvents := [], RightEvents := []\<rparr>) v10
      in (v11, oldArcLeft, newArc, oldArcRight))"

text \<open>
  \<open>handleSiteEvent\<close> in its blocks. \<open>newSiteFace\<close>: the face of the site, linked both
  ways. \<open>insertArc\<close>: the vertex below the site, the split and the two new edges, with
  the new arc as result. \<open>probeNewArc\<close>: the two triples around the new arc. The trace
  lines are left out.
\<close>

definition newSiteFace :: "nat option \<Rightarrow> voronoi \<Rightarrow> error + voronoi" where
  "newSiteFace site v =
     (let (face, d) = NewFace (DCEL v) in
      bindE (getSite (Sites v) site) (\<lambda>s.
        Inr (v\<lparr>DCEL := d\<lparr>Faces := (Faces d)[face := \<lparr>FaceID = ID s, Data = site\<rparr>]\<rparr>,
               Sites := (Sites v)[the site := s\<lparr>Face := Some face\<rparr>]\<rparr>)))"

definition insertArc :: "geometry \<Rightarrow> nat \<Rightarrow> nat option \<Rightarrow> voronoi \<Rightarrow> error + (voronoi \<times> nat)" where
  "insertArc G arcAbove site v =
     bindE (getSite (Sites v) site) (\<lambda>s.
     bindE (GetYByX G v (Site (nodes v ! arcAbove)) (X s) (SweepLine v)) (\<lambda>y.
     let (vertex, d3) = NewVertex (X s) y (DCEL v);
         (v4, oldArcLeft, newArc, oldArcRight) = splitArc arcAbove site (v\<lparr>DCEL := d3\<rparr>)
     in
     bindE (getSite (Sites v4) (Site (nodes v4 ! oldArcLeft))) (\<lambda>ls.
     bindE (getSite (Sites v4) (Site (nodes v4 ! newArc))) (\<lambda>ns.
     let ((edge1, edge2), d5) = NewEdge (Face ls) (Face ns) vertex (DCEL v4);
         v5 = updNode oldArcLeft (\<lambda>x. x\<lparr>RightEdges := RightEdges x @ [edge1]\<rparr>) (v4\<lparr>DCEL := d5\<rparr>);
         v6 = updNode newArc (\<lambda>x. x\<lparr>LeftEdges := LeftEdges x @ [edge2]\<rparr>) v5
     in
     bindE (getSite (Sites v6) (Site (nodes v6 ! oldArcRight))) (\<lambda>rs.
     let ((edge3, edge4), d7) = NewEdge (Face ns) (Face rs) vertex (DCEL v6);
         v7 = updNode newArc (\<lambda>x. x\<lparr>RightEdges := RightEdges x @ [edge3]\<rparr>) (v6\<lparr>DCEL := d7\<rparr>);
         v8 = updNode oldArcRight (\<lambda>x. x\<lparr>LeftEdges := LeftEdges x @ [edge4]\<rparr>) v7
     in Inr (v8, newArc))))))"

definition probeNewArc :: "nat \<Rightarrow> nat \<Rightarrow> voronoi \<Rightarrow> error + voronoi" where
  "probeNewArc k newArc v =
     bindE (PrevArc k (nodes v) (Some newArc)) (\<lambda>prevArc.
     bindE (PrevArc k (nodes v) prevArc) (\<lambda>prevPrevArc.
     bindE (addCircleEvent prevPrevArc prevArc (Some newArc) v) (\<lambda>v9.
     bindE (NextArc k (nodes v9) (Some newArc)) (\<lambda>nextArc.
     bindE (NextArc k (nodes v9) nextArc) (\<lambda>nextNextArc.
       addCircleEvent (Some newArc) nextArc nextNextArc v9)))))"

definition handleSiteEvent :: "geometry \<Rightarrow> nat \<Rightarrow> nat \<Rightarrow> voronoi \<Rightarrow> error + voronoi" where
  "handleSiteEvent G k event v =
     bindE (getEvent (events v) event) (\<lambda>ev.
     bindE (newSiteFace (Event_Site ev) v) (\<lambda>v1.
     if ParabolaTree v1 = None then
       (let (root, v2) = allocNode (newNode (Event_Site ev) None) v1
        in Inr (v2\<lparr>ParabolaTree := Some root\<rparr>))
     else
       bindE (findNodeAbove G k v1 (Event_Site ev)) (\<lambda>arcAbove.
       if arcAbove = None then Inr v1
       else
         bindE (removeCircleEvent k arcAbove v1) (\<lambda>v2.
         bindE (getNode (nodes v2) arcAbove) (\<lambda>a.
         bindE (insertArc G (the arcAbove) (Event_Site ev) v2) (\<lambda>(v8, newArc).
           probeNewArc k newArc v8))))))"

definition handleCircleEvent :: "nat \<Rightarrow> nat \<Rightarrow> voronoi \<Rightarrow> error + voronoi" where
  "handleCircleEvent k event v =
     bindE (getEvent (events v) event) (\<lambda>ev.
     let (vertex, d1) = NewVertex (Event_X ev) (wrap64 (Event_Y ev - Radius ev)) (DCEL v);
         nd = Event_Node ev
     in
     bindE (getNode (nodes v) nd) (\<lambda>n.
     bindE (CloseTwins (LeftEdges n) vertex d1) (\<lambda>d2.
     bindE (CloseTwins (RightEdges n) vertex d2) (\<lambda>d3.
     let v2 = v\<lparr>DCEL := d3\<rparr> in
     bindE (PrevArc k (nodes v2) nd) (\<lambda>prevArc.
     bindE (NextArc k (nodes v2) nd) (\<lambda>nextArc.
     bindE (removeArc nd v2) (\<lambda>v3.
     bindE (removeAllCircleEvents k nd v3) (\<lambda>v4.
     bindE (PrevArc k (nodes v4) prevArc) (\<lambda>prevPrevArc.
     bindE (addCircleEvent prevPrevArc prevArc nextArc v4) (\<lambda>v5.
     bindE (NextArc k (nodes v5) nextArc) (\<lambda>nextNextArc.
     bindE (addCircleEvent prevArc nextArc nextNextArc v5) (\<lambda>v6.
     bindE (getNode (nodes v6) prevArc) (\<lambda>p.
     bindE (CloseTwins (RightEdges p) vertex (DCEL v6)) (\<lambda>d7.
     bindE (getNode (nodes v6) nextArc) (\<lambda>nx.
     bindE (CloseTwins (LeftEdges nx) vertex d7) (\<lambda>d8.
     bindE (getSite (Sites v6) (Site p)) (\<lambda>ps.
     bindE (getSite (Sites v6) (Site nx)) (\<lambda>ns.
     let ((edge1, edge2), d9) = NewEdge (Face ps) (Face ns) vertex d8;
         v9 = updNode (the prevArc) (\<lambda>x. x\<lparr>RightEdges := RightEdges x @ [edge1]\<rparr>) (v6\<lparr>DCEL := d9\<rparr>)
     in Inr (updNode (the nextArc) (\<lambda>x. x\<lparr>LeftEdges := LeftEdges x @ [edge2]\<rparr>) v9)
     ))))))))))))))))))"

definition HandleNextEvent :: "geometry \<Rightarrow> nat \<Rightarrow> voronoi \<Rightarrow> error + voronoi" where
  "HandleNextEvent G k v =
     (if int (length (EventQueue v)) \<le> 0 then Inr v
      else
        bindE (EventQueue_Pop v) (\<lambda>(event, v1).
        bindE (getEvent (events v1) event) (\<lambda>ev.
          if Event_Y ev < SweepLine v1 then Inr v1
          else
            let v2 = v1\<lparr>SweepLine := Event_Y ev\<rparr> in
            if EventType ev = EventSite then handleSiteEvent G k event v2
            else handleCircleEvent k event v2)))"

fun Generate_loop :: "geometry \<Rightarrow> nat \<Rightarrow> nat \<Rightarrow> voronoi \<Rightarrow> error + voronoi" where
  "Generate_loop G k 0 v = Inl OutOfFuel"
| "Generate_loop G k (Suc n) v =
     (if int (length (EventQueue v)) > 0
      then bindE (HandleNextEvent G k v) (\<lambda>v1. Generate_loop G k n v1)
      else Inr v)"

definition Generate :: "geometry \<Rightarrow> nat \<Rightarrow> voronoi \<Rightarrow> error + voronoi" where
  "Generate G k v = Generate_loop G k k (Reset v)"

section \<open>Notions the claims are stated with\<close>

text \<open>\<open>advance G k n\<close>: \<open>n\<close> successive calls of \<open>HandleNextEvent\<close>.\<close>

fun advance :: "geometry \<Rightarrow> nat \<Rightarrow> nat \<Rightarrow> voronoi \<Rightarrow> error + voronoi" where
  "advance G k 0 v = Inr v"
| "advance G k (Suc n) v = bindE (HandleNextEvent G k v) (\<lambda>v1. advance G k n v1)"



text \<open>
  \<open>post m Q\<close>: if the computation \<open>m\<close> returns, its result satisfies \<open>Q\<close>.
\<close>

definition post :: "error + 'a \<Rightarrow> ('a \<Rightarrow> bool) \<Rightarrow> bool" where
  "post m Q = (case m of Inl e \<Rightarrow> True | Inr x \<Rightarrow> Q x)"

text \<open>What the helpers of the two handlers never assign.\<close>

definition same_frame :: "voronoi \<Rightarrow> voronoi \<Rightarrow> bool" where
  "same_frame v v' = (SweepLine v' = SweepLine v \<and> DCEL v' = DCEL v \<and> Sites v' = Sites v
      \<and> Bounds v' = Bounds v)"

subsection \<open>Concrete inputs\<close>

text \<open>A geometry for the examples: the breakpoint is the mean of the two x, the arc is flat.\<close>

definition flat_geometry :: geometry where
  "flat_geometry =
     \<lparr>BreakpointX = (\<lambda>(x1, y1) (x2, y2) d. Some ((x1 + x2) div 2)),
      ParabolaY = (\<lambda>(x1, y1) x d. 0)\<rparr>"

text \<open>Two sites, and the states of their run: after the first and after the second event.\<close>

definition two_sites :: "site list" where
  "two_sites = [\<lparr>X = 0, Y = 0, ID = 0, Face = None\<rparr>, \<lparr>X = 10, Y = 5, ID = 1, Face = None\<rparr>]"

text \<open>A state whose first queued event lies above the sweep line.\<close>

definition late_state :: voronoi where
  "late_state = (New two_sites ((0, 0), (10, 10)))\<lparr>SweepLine := 3\<rparr>"

text \<open>
  Three arcs over the sites (0,5), (1,2), (5,0), whose circle has its centre at (5,5)
  and radius 5, and a queued circle event for the middle arc that the middle arc does not
  list; \<open>stale_state_after\<close> is the state after one step.
\<close>

definition stale_state :: voronoi where
  "stale_state =
     \<lparr>Bounds = ((0, 0), (10, 10)),
      Sites = [\<lparr>X = 0, Y = 5, ID = 0, Face = Some 0\<rparr>, \<lparr>X = 1, Y = 2, ID = 1, Face = Some 1\<rparr>,
               \<lparr>X = 5, Y = 0, ID = 2, Face = Some 2\<rparr>],
      EventQueue = [0],
      ParabolaTree = Some 0,
      SweepLine = 5,
      DCEL = \<lparr>Vertices = [],
              Faces = [\<lparr>FaceID = 0, Data = Some 0\<rparr>, \<lparr>FaceID = 1, Data = Some 1\<rparr>,
                       \<lparr>FaceID = 2, Data = Some 2\<rparr>],
              HalfEdges = []\<rparr>,
      nodes = [(newNode None None)\<lparr>Left := Some 1, Right := Some 4\<rparr>,
               (newNode None (Some 0))\<lparr>Left := Some 2, Right := Some 3\<rparr>,
               newNode (Some 0) (Some 1),
               newNode (Some 1) (Some 1),
               newNode (Some 2) (Some 0)],
      events = [\<lparr>EventType = EventCircle, Event_X = 5, Event_Y = 10, Radius = 5,
                 Event_Node = Some 3, Event_Site = None, index = 0\<rparr>]\<rparr>"

definition first_site_state :: voronoi where
  "first_site_state =
     \<lparr>Bounds = ((0, 0), (10, 10)),
      Sites = [\<lparr>X = 0, Y = 0, ID = 0, Face = Some 0\<rparr>, \<lparr>X = 10, Y = 5, ID = 1, Face = None\<rparr>],
      EventQueue = [1], ParabolaTree = Some 0, SweepLine = 0,
      DCEL = \<lparr>Vertices = [], Faces = [\<lparr>FaceID = 0, Data = Some 0\<rparr>], HalfEdges = []\<rparr>,
      nodes = [newNode (Some 0) None],
      events = [\<lparr>EventType = EventSite, Event_X = 0, Event_Y = 0, Radius = 0,
                 Event_Node = None, Event_Site = Some 0, index = - 1\<rparr>,
                \<lparr>EventType = EventSite, Event_X = 10, Event_Y = 5, Radius = 0,
                 Event_Node = None, Event_Site = Some 1, index = 1\<rparr>]\<rparr>"

definition second_site_state :: voronoi where
  "second_site_state =
     \<lparr>Bounds = ((0, 0), (10, 10)),
      Sites = [\<lparr>X = 0, Y = 0, ID = 0, Face = Some 0\<rparr>, \<lparr>X = 10, Y = 5, ID = 1, Face = Some 1\<rparr>],
      EventQueue = [], ParabolaTree = Some 0, SweepLine = 5,
      DCEL = \<lparr>Vertices = [(10, 0)],
              Faces = [\<lparr>FaceID = 0, Data = Some 0\<rparr>, \<lparr>FaceID = 1, Data = Some 1\<rparr>],
              HalfEdges = [\<lparr>HalfEdgeFace = Some 0, Origin = Some 0, Twin = Some 1\<rparr>,
                           \<lparr>HalfEdgeFace = Some 1, Origin = None, Twin = Some 0\<rparr>,
                           \<lparr>HalfEdgeFace = Some 1, Origin = Some 0, Twin = Some 3\<rparr>,
                           \<lparr>HalfEdgeFace = Some 0, Origin = None, Twin = Some 2\<rparr>]\<rparr>,
      nodes = [(newNode None None)\<lparr>Left := Some 2, Right := Some 1\<rparr>,
               (newNode (Some 0) (Some 0))\<lparr>LeftEdges := [3]\<rparr>,
               (newNode None (Some 0))\<lparr>Left := Some 4, Right := Some 3\<rparr>,
               (newNode (Some 1) (Some 2))\<lparr>LeftEdges := [1], RightEdges := [2]\<rparr>,
               (newNode (Some 0) (Some 2))\<lparr>RightEdges := [0]\<rparr>],
      events = [\<lparr>EventType = EventSite, Event_X = 0, Event_Y = 0, Radius = 0,
                 Event_Node = None, Event_Site = Some 0, index = - 1\<rparr>,
                \<lparr>EventType = EventSite, Event_X = 10, Event_Y = 5, Radius = 0,
                 Event_Node = None, Event_Site = Some 1, index = - 1\<rparr>]\<rparr>"

definition stale_state_after :: voronoi where
  "stale_state_after =
     \<lparr>Bounds = ((0, 0), (10, 10)),
      Sites = [\<lparr>X = 0, Y = 5, ID = 0, Face = Some 0\<rparr>, \<lparr>X = 1, Y = 2, ID = 1, Face = Some 1\<rparr>,
               \<lparr>X = 5, Y = 0, ID = 2, Face = Some 2\<rparr>],
      EventQueue = [],
      ParabolaTree = Some 0,
      SweepLine = 10,
      DCEL = \<lparr>Vertices = [(5, 5)],
              Faces = [\<lparr>FaceID = 0, Data = Some 0\<rparr>, \<lparr>FaceID = 1, Data = Some 1\<rparr>,
                       \<lparr>FaceID = 2, Data = Some 2\<rparr>],
              HalfEdges = [\<lparr>HalfEdgeFace = Some 0, Origin = Some 0, Twin = Some 1\<rparr>,
                           \<lparr>HalfEdgeFace = Some 2, Origin = None, Twin = Some 0\<rparr>]\<rparr>,
      nodes = [(newNode None None)\<lparr>Left := Some 2, Right := Some 4\<rparr>,
               (newNode None (Some 0))\<lparr>Left := Some 2, Right := Some 3\<rparr>,
               (newNode (Some 0) (Some 0))\<lparr>RightEdges := [0]\<rparr>,
               newNode (Some 1) (Some 1),
               (newNode (Some 2) (Some 0))\<lparr>LeftEdges := [1]\<rparr>],
      events = [\<lparr>EventType = EventCircle, Event_X = 5, Event_Y = 10, Radius = 5,
                 Event_Node = Some 3, Event_Site = None, index = - 1\<rparr>]\<rparr>"

text \<open>The site of the arc at an address, when the address and the site pointer are sound.\<close>

definition arcSite :: "voronoi \<Rightarrow> nat \<Rightarrow> site option" where
  "arcSite v a =
     (if a < length (nodes v) then
        (case Site (nodes v ! a) of
           None \<Rightarrow> None
         | Some s \<Rightarrow> if s < length (Sites v) then Some (Sites v ! s) else None)
      else None)"

text \<open>The three arcs of \<open>stale_state\<close>, with no event yet.\<close>

definition three_arcs_state :: voronoi where
  "three_arcs_state = stale_state\<lparr>EventQueue := [], events := []\<rparr>"

text \<open>
  The tree a heap holds: \<open>tree_at ns par t\<close> says that the nodes at the addresses of \<open>t\<close>
  are linked as \<open>t\<close> is, below the parent pointer \<open>par\<close>. A leaf is an arc, an internal
  node a breakpoint with both children.
\<close>

datatype arctree = Arc nat | Breakpoint nat arctree arctree

fun rootOf :: "arctree \<Rightarrow> nat" where
  "rootOf (Arc a) = a"
| "rootOf (Breakpoint a l r) = a"

fun arcs :: "arctree \<Rightarrow> nat list" where
  "arcs (Arc a) = [a]"
| "arcs (Breakpoint a l r) = arcs l @ arcs r"

fun breakpoints :: "arctree \<Rightarrow> nat list" where
  "breakpoints (Arc a) = []"
| "breakpoints (Breakpoint a l r) = a # breakpoints l @ breakpoints r"

fun leftmost :: "arctree \<Rightarrow> nat" where
  "leftmost (Arc a) = a"
| "leftmost (Breakpoint a l r) = leftmost l"

fun rightmost :: "arctree \<Rightarrow> nat" where
  "rightmost (Arc a) = a"
| "rightmost (Breakpoint a l r) = rightmost r"

text \<open>The number of breakpoints above the leftmost arc, above the rightmost arc, above any arc.\<close>

fun leftDepth :: "arctree \<Rightarrow> nat" where
  "leftDepth (Arc a) = 0"
| "leftDepth (Breakpoint a l r) = Suc (leftDepth l)"

fun rightDepth :: "arctree \<Rightarrow> nat" where
  "rightDepth (Arc a) = 0"
| "rightDepth (Breakpoint a l r) = Suc (rightDepth r)"

fun height :: "arctree \<Rightarrow> nat" where
  "height (Arc a) = 0"
| "height (Breakpoint a l r) = Suc (max (height l) (height r))"

fun tree_at :: "node list \<Rightarrow> nat option \<Rightarrow> arctree \<Rightarrow> bool" where
  "tree_at ns par (Arc a) =
     (a < length ns \<and> Left (ns ! a) = None \<and> Right (ns ! a) = None \<and> Parent (ns ! a) = par)"
| "tree_at ns par (Breakpoint a l r) =
     (a < length ns \<and> Left (ns ! a) = Some (rootOf l) \<and> Right (ns ! a) = Some (rootOf r)
      \<and> Parent (ns ! a) = par \<and> tree_at ns (Some a) l \<and> tree_at ns (Some a) r)"

definition three_arcs :: arctree where
  "three_arcs = Breakpoint 0 (Breakpoint 1 (Arc 2) (Arc 3)) (Arc 4)"

fun addrs :: "arctree \<Rightarrow> nat list" where
  "addrs (Arc a) = [a]"
| "addrs (Breakpoint a l r) = a # addrs l @ addrs r"

text \<open>The tree after the split of the arc at \<open>a\<close> into \<open>l\<close>, \<open>n\<close>, \<open>r\<close> below \<open>a\<close> and \<open>m\<close>.\<close>

fun splitTree :: "nat \<Rightarrow> nat \<Rightarrow> nat \<Rightarrow> nat \<Rightarrow> nat \<Rightarrow> arctree \<Rightarrow> arctree" where
  "splitTree a m l n r (Arc b) =
     (if b = a then Breakpoint a (Breakpoint m (Arc l) (Arc n)) (Arc r) else Arc b)"
| "splitTree a m l n r (Breakpoint b x y) =
     Breakpoint b (splitTree a m l n r x) (splitTree a m l n r y)"

text \<open>The links of a node: what \<open>tree_at\<close> reads.\<close>

definition links :: "node \<Rightarrow> nat option \<times> nat option \<times> nat option" where
  "links n = (Parent n, Left n, Right n)"

definition same_links :: "voronoi \<Rightarrow> voronoi \<Rightarrow> bool" where
  "same_links v v' = (map links (nodes v') = map links (nodes v) \<and> ParabolaTree v' = ParabolaTree v)"

text \<open>A run of site events, one \<open>handleSiteEvent\<close> after the other.\<close>

fun siteEvents :: "geometry \<Rightarrow> nat \<Rightarrow> nat list \<Rightarrow> voronoi \<Rightarrow> error + voronoi" where
  "siteEvents G k [] v = Inr v"
| "siteEvents G k (e # es) v = bindE (handleSiteEvent G k e v) (\<lambda>v1. siteEvents G k es v1)"

text \<open>The state holds the tree \<open>t\<close>, and no address occurs twice in it.\<close>

definition holds_tree :: "voronoi \<Rightarrow> arctree \<Rightarrow> bool" where
  "holds_tree v t = (ParabolaTree v = Some (rootOf t) \<and> tree_at (nodes v) None t
      \<and> distinct (addrs t))"

definition two_site_tree :: arctree where
  "two_site_tree = Breakpoint 0 (Breakpoint 2 (Arc 4) (Arc 3)) (Arc 1)"

text \<open>The element before and the element after \<open>x\<close> in a list without repetition.\<close>

fun before :: "nat \<Rightarrow> nat list \<Rightarrow> nat option" where
  "before x [] = None"
| "before x [y] = None"
| "before x (y # z # zs) = (if z = x then Some y else before x (z # zs))"

fun after :: "nat \<Rightarrow> nat list \<Rightarrow> nat option" where
  "after x [] = None"
| "after x [y] = None"
| "after x (y # z # zs) = (if y = x then Some z else after x (z # zs))"

text \<open>
  The three arcs of \<open>stale_state\<close> with their circle event registered as \<open>addCircleEvent\<close>
  registers it, and a fourth site to the left, above the first arc, with its site event.
\<close>

definition registered_state :: voronoi where
  "registered_state =
     \<lparr>Bounds = ((- 10, 0), (10, 10)),
      Sites = [\<lparr>X = 0, Y = 5, ID = 0, Face = Some 0\<rparr>, \<lparr>X = 1, Y = 2, ID = 1, Face = Some 1\<rparr>,
               \<lparr>X = 5, Y = 0, ID = 2, Face = Some 2\<rparr>, \<lparr>X = - 3, Y = 7, ID = 3, Face = None\<rparr>],
      EventQueue = [0, 1],
      ParabolaTree = Some 0,
      SweepLine = 5,
      DCEL = \<lparr>Vertices = [],
              Faces = [\<lparr>FaceID = 0, Data = Some 0\<rparr>, \<lparr>FaceID = 1, Data = Some 1\<rparr>,
                       \<lparr>FaceID = 2, Data = Some 2\<rparr>],
              HalfEdges = []\<rparr>,
      nodes = [(newNode None None)\<lparr>Left := Some 1, Right := Some 4\<rparr>,
               (newNode None (Some 0))\<lparr>Left := Some 2, Right := Some 3\<rparr>,
               (newNode (Some 0) (Some 1))\<lparr>LeftEvents := [0]\<rparr>,
               (newNode (Some 1) (Some 1))\<lparr>MiddleEvents := [0]\<rparr>,
               (newNode (Some 2) (Some 0))\<lparr>RightEvents := [0]\<rparr>],
      events = [\<lparr>EventType = EventCircle, Event_X = 5, Event_Y = 10, Radius = 5,
                 Event_Node = Some 3, Event_Site = None, index = 0\<rparr>,
                \<lparr>EventType = EventSite, Event_X = - 3, Event_Y = 7, Radius = 0,
                 Event_Node = None, Event_Site = Some 3, index = 1\<rparr>]\<rparr>"

text \<open>The state after the step that handles the site event of the fourth site.\<close>

definition registered_state_after :: voronoi where
  "registered_state_after =
     \<lparr>Bounds = ((- 10, 0), (10, 10)),
      Sites = [\<lparr>X = 0, Y = 5, ID = 0, Face = Some 0\<rparr>, \<lparr>X = 1, Y = 2, ID = 1, Face = Some 1\<rparr>,
               \<lparr>X = 5, Y = 0, ID = 2, Face = Some 2\<rparr>, \<lparr>X = - 3, Y = 7, ID = 3, Face = Some 3\<rparr>],
      EventQueue = [0],
      ParabolaTree = Some 0,
      SweepLine = 7,
      DCEL = \<lparr>Vertices = [(- 3, 0)],
              Faces = [\<lparr>FaceID = 0, Data = Some 0\<rparr>, \<lparr>FaceID = 1, Data = Some 1\<rparr>,
                       \<lparr>FaceID = 2, Data = Some 2\<rparr>, \<lparr>FaceID = 3, Data = Some 3\<rparr>],
              HalfEdges = [\<lparr>HalfEdgeFace = Some 0, Origin = Some 0, Twin = Some 1\<rparr>,
                           \<lparr>HalfEdgeFace = Some 3, Origin = None, Twin = Some 0\<rparr>,
                           \<lparr>HalfEdgeFace = Some 3, Origin = Some 0, Twin = Some 3\<rparr>,
                           \<lparr>HalfEdgeFace = Some 0, Origin = None, Twin = Some 2\<rparr>]\<rparr>,
      nodes = [(newNode None None)\<lparr>Left := Some 1, Right := Some 4\<rparr>,
               (newNode None (Some 0))\<lparr>Left := Some 2, Right := Some 3\<rparr>,
               (newNode None (Some 1))\<lparr>Left := Some 6, Right := Some 5\<rparr>,
               (newNode (Some 1) (Some 1))\<lparr>MiddleEvents := [0]\<rparr>,
               (newNode (Some 2) (Some 0))\<lparr>RightEvents := [0]\<rparr>,
               (newNode (Some 0) (Some 2))\<lparr>LeftEvents := [0], LeftEdges := [3]\<rparr>,
               (newNode None (Some 2))\<lparr>Left := Some 8, Right := Some 7\<rparr>,
               (newNode (Some 3) (Some 6))\<lparr>LeftEdges := [1], RightEdges := [2]\<rparr>,
               (newNode (Some 0) (Some 6))\<lparr>RightEdges := [0]\<rparr>],
      events = [\<lparr>EventType = EventCircle, Event_X = 5, Event_Y = 10, Radius = 5,
                 Event_Node = Some 3, Event_Site = None, index = 0\<rparr>,
                \<lparr>EventType = EventSite, Event_X = - 3, Event_Y = 7, Radius = 0,
                 Event_Node = None, Event_Site = Some 3, index = - 1\<rparr>]\<rparr>"

section \<open>Basic facts\<close>

lemma bindE_simps [simp]: "bindE (Inl e) f = Inl e" "bindE (Inr x) f = f x"
  by (simp_all add: bindE_def)

lemma bindE_eq_Inr: "(bindE m f = Inr y) = (\<exists>x. m = Inr x \<and> f x = Inr y)"
  by (cases m) simp_all

declare RemoveEvent_loop.simps [simp del]

lemma HasEvent_set: "HasEvent event ce = (event \<in> set ce)"
  by (induction ce) auto

section \<open>\<open>CircleEvents.RemoveEvent\<close>\<close>

lemma mset_swap_out:
  assumes "i < length ce"
  shows "mset (take (length ce - 1) (ce[i := ce ! (length ce - 1)])) = mset ce - {# ce ! i #}"
proof (cases ce rule: rev_cases)
  case Nil
  with assms show ?thesis by simp
next
  case (snoc xs l)
  show ?thesis
  proof (cases "i = length xs")
    case True
    with snoc show ?thesis by simp
  next
    case False
    with assms snoc have i: "i < length xs" by simp
    then have "ce ! i = xs ! i" using snoc by (simp add: nth_append)
    moreover have "take (length ce - 1) (ce[i := ce ! (length ce - 1)]) = xs[i := l]"
      using snoc i by (simp add: list_update_append)
    ultimately show ?thesis using snoc i
      by (simp add: mset_update)
  qed
qed

text \<open>
  The invariant of the loop: the index stays inside the slice, and the event does not
  occur above it. The loop then ends without a panic, having dropped every occurrence of
  the event and nothing else.
\<close>

lemma RemoveEvent_loop_inv:
  "i < int (length ce) \<Longrightarrow> (\<forall>j. i < int j \<and> j < length ce \<longrightarrow> ce ! j \<noteq> event) \<Longrightarrow>
   \<exists>r. RemoveEvent_loop event i ce = Inr r \<and> mset r = filter_mset (\<lambda>x. x \<noteq> event) (mset ce)"
proof (induction event i ce rule: RemoveEvent_loop.induct)
  case (1 event i ce)
  show ?case
  proof (cases "i \<ge> 0")
    case False
    then have "\<forall>j < length ce. ce ! j \<noteq> event" using "1.prems" by auto
    then have "event \<notin> set ce" by (auto simp: in_set_conv_nth)
    then have "filter (\<lambda>x. x \<noteq> event) ce = ce" by (auto simp: filter_id_conv)
    then have "filter_mset (\<lambda>x. x \<noteq> event) (mset ce) = mset ce"
      by (metis mset_filter)
    with False show ?thesis by (subst RemoveEvent_loop.simps) simp
  next
    case True
    then have inr: "nat i < length ce" using "1.prems" by auto
    show ?thesis
    proof (cases "ce ! nat i = event")
      case hit: True
      let ?ce' = "take (length ce - 1) (ce[nat i := ce ! (length ce - 1)])"
      have a: "i - 1 < int (length ?ce')" using inr True by simp
      have b: "\<forall>j. i - 1 < int j \<and> j < length ?ce' \<longrightarrow> ?ce' ! j \<noteq> event"
      proof (intro allI impI)
        fix j assume j: "i - 1 < int j \<and> j < length ?ce'"
        then have jl: "j < length ce - 1" by simp
        show "?ce' ! j \<noteq> event"
        proof (cases "j = nat i")
          case True
          then have "?ce' ! j = ce ! (length ce - 1)" using jl inr by simp
          moreover have "i < int (length ce - 1)" using True jl \<open>i \<ge> 0\<close> by simp
          ultimately show ?thesis using "1.prems"(2)[rule_format, of "length ce - 1"] inr
            by simp
        next
          case False
          then have "?ce' ! j = ce ! j" using jl by simp
          moreover have "i < int j" using False j True by linarith
          ultimately show ?thesis using "1.prems"(2) jl by simp
        qed
      qed
      from "1.IH"(1)[OF True inr hit a b] obtain r where
        r: "RemoveEvent_loop event (i - 1) ?ce' = Inr r"
           "mset r = filter_mset (\<lambda>x. x \<noteq> event) (mset ?ce')" by blast
      have "mset ?ce' = mset ce - {# event #}" using mset_swap_out[OF inr] hit by simp
      then have "filter_mset (\<lambda>x. x \<noteq> event) (mset ?ce') = filter_mset (\<lambda>x. x \<noteq> event) (mset ce)"
        by (simp add: filter_diff_mset)
      with r True inr hit show ?thesis by (subst RemoveEvent_loop.simps) simp
    next
      case miss: False
      have a: "i - 1 < int (length ce)" using inr by simp
      have b: "\<forall>j. i - 1 < int j \<and> j < length ce \<longrightarrow> ce ! j \<noteq> event"
      proof (intro allI impI)
        fix j assume j: "i - 1 < int j \<and> j < length ce"
        show "ce ! j \<noteq> event"
        proof (cases "j = nat i")
          case True with miss show ?thesis by simp
        next
          case False
          then have "i < int j" using j True by linarith
          then show ?thesis using "1.prems"(2) j by simp
        qed
      qed
      from "1.IH"(2)[OF True inr miss a b] True inr miss show ?thesis
        by (subst RemoveEvent_loop.simps) simp
    qed
  qed
qed

lemma RemoveEvent_mset:
  "\<exists>r. RemoveEvent event ce = Inr r \<and> mset r = filter_mset (\<lambda>x. x \<noteq> event) (mset ce)"
  unfolding RemoveEvent_def by (rule RemoveEvent_loop_inv) auto

text \<open>
  C9. \<open>RemoveEvent\<close> returns on every participation list and every event; afterwards
  \<open>HasEvent\<close> of the removed event is false, \<open>HasEvent\<close> of every other event is what
  it was before, and every other event occurs as often as before.
\<close>

theorem RemoveEvent_removes_exactly:
  "\<exists>r. RemoveEvent event ce = Inr r \<and> \<not> HasEvent event r
       \<and> (\<forall>e. e \<noteq> event \<longrightarrow> HasEvent e r = HasEvent e ce)
       \<and> mset r = filter_mset (\<lambda>x. x \<noteq> event) (mset ce)"
proof -
  from RemoveEvent_mset[of event ce] obtain r where
    r: "RemoveEvent event ce = Inr r" "mset r = filter_mset (\<lambda>x. x \<noteq> event) (mset ce)"
    by blast
  from r(2) have "set_mset (mset r) = set_mset (filter_mset (\<lambda>x. x \<noteq> event) (mset ce))"
    by simp
  then have "set r = {x \<in> set ce. x \<noteq> event}" by simp
  with r show ?thesis by (auto simp: HasEvent_set)
qed

theorem RemoveEvent_removes_exactly_witness:
  "RemoveEvent 2 [2, 1, 2, 3] = Inr [3, 1] \<and> \<not> HasEvent 2 [3, 1]
     \<and> HasEvent 1 [3, 1] \<and> HasEvent 3 [3, 1]"
  using RemoveEvent_removes_exactly[of 2 "[2, 1, 2, 3]"]
  by (simp add: RemoveEvent_def RemoveEvent_loop.simps)

section \<open>Evaluation and the postcondition calculus\<close>

lemma bindE_weak_cong: "m = m' \<Longrightarrow> bindE m f = bindE m' f" by simp

lemmas model_defs =
  New_def Reset_def NewEventQueue_def NewDCEL_def NewFace_def NewVertex_def NewEdge_def
  HandleNextEvent_def EventQueue_Pop_def EventQueue_Push_def EventQueue_Remove_def
  handleSiteEvent_def newSiteFace_def insertArc_def probeNewArc_def handleCircleEvent_def findNodeAbove_def allocNode_def newNode_def
  splitArc_def addCircleEvent_def removeArc_def removeCircleEvent_def removeAllCircleEvents_def
  GetXOfInternalNode_def GetYByX_def PrevArc_def NextArc_def PrevChildArc_def NextChildArc_def
  IsLeaf_def getNode_def getSite_def getEvent_def updNode_def updEvent_def modNode_def
  AddLeftEvent_def AddMiddleEvent_def AddRightEvent_def Node_RemoveEvent_def
  Generate_def closeHalfEdge_def wrap64_def Let_def

lemma postI: "(\<And>x. m = Inr x \<Longrightarrow> Q x) \<Longrightarrow> post m Q"
  by (cases m) (simp_all add: post_def)

lemma postD: "post m Q \<Longrightarrow> m = Inr x \<Longrightarrow> Q x"
  by (simp add: post_def)

lemma post_bindE: "post (bindE m f) Q = post m (\<lambda>x. post (f x) Q)"
  by (cases m) (simp_all add: post_def)

lemma post_Inr: "post (Inr x) Q = Q x" by (simp add: post_def)
lemma post_Inl: "post (Inl e) Q = True" by (simp add: post_def)
lemma post_if: "post (if c then a else b) Q = ((c \<longrightarrow> post a Q) \<and> (\<not> c \<longrightarrow> post b Q))" by simp
lemma post_option: "post (case x of None \<Rightarrow> a | Some y \<Rightarrow> b y) Q
   = ((x = None \<longrightarrow> post a Q) \<and> (\<forall>y. x = Some y \<longrightarrow> post (b y) Q))"
  by (cases x) simp_all
lemma post_sum: "post (case s of Inl e \<Rightarrow> a e | Inr y \<Rightarrow> b y) Q
   = ((\<forall>e. s = Inl e \<longrightarrow> post (a e) Q) \<and> (\<forall>y. s = Inr y \<longrightarrow> post (b y) Q))"
  by (cases s) simp_all
lemma post_prod: "post (case p of (x, y) \<Rightarrow> f x y) Q = post (f (fst p) (snd p)) Q"
  by (cases p) simp

lemmas post_simps = post_bindE post_Inr post_Inl post_if post_option post_sum post_prod Let_def split_beta

section \<open>The step loop\<close>

lemma Pop_props:
  assumes "EventQueue_Pop v = Inr (e, v1)"
  shows "e < length (events v)" "EventQueue v \<noteq> []"
    "v1 = updEvent e (\<lambda>ev. ev\<lparr>index := - 1\<rparr>) (v\<lparr>EventQueue := remove1 e (EventQueue v)\<rparr>)"
proof -
  from assms have ne: "EventQueue v \<noteq> []" and all: "list_all (\<lambda>e. e < length (events v)) (EventQueue v)"
    and e: "e = arg_min_list (\<lambda>e. Event_Y (events v ! e)) (EventQueue v)"
    and v1: "v1 = updEvent e (\<lambda>ev. ev\<lparr>index := - 1\<rparr>) (v\<lparr>EventQueue := remove1 e (EventQueue v)\<rparr>)"
    by (auto simp: EventQueue_Pop_def Let_def split: if_splits)
  from ne e have "e \<in> set (EventQueue v)" by (simp add: arg_min_list_in)
  with all show "e < length (events v)" by (simp add: list_all_iff)
  show "EventQueue v \<noteq> []" by (rule ne)
  show "v1 = updEvent e (\<lambda>ev. ev\<lparr>index := - 1\<rparr>) (v\<lparr>EventQueue := remove1 e (EventQueue v)\<rparr>)" by (rule v1)
qed

subsection \<open>What the helpers leave alone\<close>

lemma frame_updNode [simp]:
  "SweepLine (updNode a f v) = SweepLine v" "DCEL (updNode a f v) = DCEL v"
  "Sites (updNode a f v) = Sites v" "Bounds (updNode a f v) = Bounds v"
  "ParabolaTree (updNode a f v) = ParabolaTree v" "events (updNode a f v) = events v"
  "EventQueue (updNode a f v) = EventQueue v"
  by (simp_all add: updNode_def)

lemma frame_updEvent [simp]:
  "SweepLine (updEvent a f v) = SweepLine v" "DCEL (updEvent a f v) = DCEL v"
  "Sites (updEvent a f v) = Sites v" "Bounds (updEvent a f v) = Bounds v"
  "ParabolaTree (updEvent a f v) = ParabolaTree v" "nodes (updEvent a f v) = nodes v"
  "EventQueue (updEvent a f v) = EventQueue v"
  by (simp_all add: updEvent_def)

lemma frame_Push [simp]:
  "SweepLine (EventQueue_Push e v) = SweepLine v" "DCEL (EventQueue_Push e v) = DCEL v"
  "Sites (EventQueue_Push e v) = Sites v" "Bounds (EventQueue_Push e v) = Bounds v"
  "ParabolaTree (EventQueue_Push e v) = ParabolaTree v" "nodes (EventQueue_Push e v) = nodes v"
  by (simp_all add: EventQueue_Push_def)

lemma frame_Remove [simp]:
  "SweepLine (EventQueue_Remove e v) = SweepLine v" "DCEL (EventQueue_Remove e v) = DCEL v"
  "Sites (EventQueue_Remove e v) = Sites v" "Bounds (EventQueue_Remove e v) = Bounds v"
  "ParabolaTree (EventQueue_Remove e v) = ParabolaTree v" "nodes (EventQueue_Remove e v) = nodes v"
  by (simp_all add: EventQueue_Remove_def)

lemma same_frame_refl [simp]: "same_frame v v" by (simp add: same_frame_def)

lemma same_frame_trans: "same_frame v v1 \<Longrightarrow> same_frame v1 v2 \<Longrightarrow> same_frame v v2"
  by (simp add: same_frame_def)

lemma same_frame_simps [simp]:
  "same_frame v (updNode a f v1) = same_frame v v1"
  "same_frame v (updEvent e g v1) = same_frame v v1"
  "same_frame v (EventQueue_Push e v1) = same_frame v v1"
  "same_frame v (EventQueue_Remove e v1) = same_frame v v1"
  "same_frame v (v1\<lparr>ParabolaTree := t\<rparr>) = same_frame v v1"
  "same_frame v (v1\<lparr>events := es\<rparr>) = same_frame v v1"
  by (simp_all add: same_frame_def)

lemma modNode_frame: "modNode p f v = Inr v' \<Longrightarrow> same_frame v v'"
  by (auto simp: modNode_def bindE_eq_Inr)

lemma Node_RemoveEvent_frame: "Node_RemoveEvent n e v = Inr v' \<Longrightarrow> same_frame v v'"
  by (auto simp: Node_RemoveEvent_def bindE_eq_Inr)

lemma addCircleEvent_frame:
  assumes "addCircleEvent a b c v = Inr v'" shows "same_frame v v'"
proof -
  have "post (addCircleEvent a b c v) (same_frame v)"
    unfolding addCircleEvent_def AddLeftEvent_def AddMiddleEvent_def AddRightEvent_def
    by (simp add: post_simps, (intro postI conjI impI allI | simp add: post_simps)+)
       (auto dest!: modNode_frame simp: same_frame_def)
  then show ?thesis using assms by (rule postD)
qed

lemma removeArc_frame:
  assumes "removeArc n v = Inr v'" shows "same_frame v v'"
proof -
  have "post (removeArc n v) (same_frame v)"
    unfolding removeArc_def
    by (simp add: post_simps, (intro postI conjI impI allI | simp add: post_simps)+)
       (auto dest!: modNode_frame simp: same_frame_def)
  then show ?thesis using assms by (rule postD)
qed

lemma removeCircleEvent_loop_frame:
  "removeCircleEvent_loop es v = Inr v' \<Longrightarrow> same_frame v v'"
proof (induction es arbitrary: v)
  case Nil then show ?case by simp
next
  case (Cons e es)
  then show ?case
    by (auto simp: bindE_eq_Inr split: if_splits dest!: Cons.IH simp: same_frame_def)
qed

lemma removeCircleEvent_frame:
  assumes "removeCircleEvent k n v = Inr v'" shows "same_frame v v'"
proof -
  have "post (removeCircleEvent k n v) (same_frame v)"
    unfolding removeCircleEvent_def
    by (simp add: post_simps, (intro postI conjI impI allI | simp add: post_simps)+)
       (auto dest!: modNode_frame removeCircleEvent_loop_frame simp: same_frame_def)
  then show ?thesis using assms by (rule postD)
qed

lemma RemoveEvent_each_frame:
  "RemoveEvent_each ns e v = Inr v' \<Longrightarrow> same_frame v v'"
proof (induction ns arbitrary: v)
  case Nil then show ?case by simp
next
  case (Cons n ns)
  then show ?case
    by (auto simp: bindE_eq_Inr dest!: Cons.IH Node_RemoveEvent_frame simp: same_frame_def)
qed

lemma removeAllCircleEvents_loop_frame:
  "removeAllCircleEvents_loop ns es v = Inr v' \<Longrightarrow> same_frame v v'"
proof (induction es arbitrary: v)
  case Nil then show ?case by simp
next
  case (Cons e es)
  then show ?case
    by (auto simp: bindE_eq_Inr split: if_splits dest!: Cons.IH RemoveEvent_each_frame simp: same_frame_def)
qed

lemma removeAllCircleEvents_frame:
  assumes "removeAllCircleEvents k n v = Inr v'" shows "same_frame v v'"
proof -
  have "post (removeAllCircleEvents k n v) (same_frame v)"
    unfolding removeAllCircleEvents_def
    by (simp add: post_simps, (intro postI conjI impI allI | simp add: post_simps)+)
       (auto dest!: modNode_frame removeAllCircleEvents_loop_frame simp: same_frame_def)
  then show ?thesis using assms by (rule postD)
qed

lemma splitArc_frame [simp]:
  "SweepLine (fst (splitArc a s v)) = SweepLine v" "DCEL (fst (splitArc a s v)) = DCEL v"
  "Sites (fst (splitArc a s v)) = Sites v" "Bounds (fst (splitArc a s v)) = Bounds v"
  by (simp_all add: splitArc_def allocNode_def Let_def split_beta)

lemma CloseTwins_Vertices: "CloseTwins hs vertex d = Inr d' \<Longrightarrow> Vertices d' = Vertices d"
proof (induction hs arbitrary: d)
  case Nil then show ?case by simp
next
  case (Cons h hs)
  then show ?case
    by (auto simp: bindE_eq_Inr closeHalfEdge_def split: if_splits option.splits dest!: Cons.IH)
qed

lemma handleCircleEvent_SweepLine:
  assumes "handleCircleEvent k e v = Inr v'" shows "SweepLine v' = SweepLine v"
proof -
  have "post (handleCircleEvent k e v) (\<lambda>v'. SweepLine v' = SweepLine v)"
    unfolding handleCircleEvent_def
    by (simp add: post_simps, (intro postI conjI impI allI | simp add: post_simps)+)
       (auto dest!: removeArc_frame removeAllCircleEvents_frame addCircleEvent_frame simp: same_frame_def)
  then show ?thesis using assms by (rule postD)
qed

lemma handleCircleEvent_Vertices:
  assumes "handleCircleEvent k e v = Inr v'"
  shows "Vertices (DCEL v') = Vertices (DCEL v) @
           [(Event_X (events v ! e), wrap64 (Event_Y (events v ! e) - Radius (events v ! e)))]"
proof -
  have "post (handleCircleEvent k e v) (\<lambda>v'. Vertices (DCEL v') = Vertices (DCEL v) @
           [(Event_X (events v ! e), wrap64 (Event_Y (events v ! e) - Radius (events v ! e)))])"
    unfolding handleCircleEvent_def
    by (simp add: post_simps, (intro postI conjI impI allI | simp add: post_simps)+)
       (auto dest!: removeArc_frame removeAllCircleEvents_frame addCircleEvent_frame CloseTwins_Vertices
             simp: same_frame_def NewVertex_def NewEdge_def getEvent_def Let_def split: if_splits)
  then show ?thesis using assms by (rule postD)
qed

lemma probeNewArc_frame:
  assumes "probeNewArc k n v = Inr v'" shows "same_frame v v'"
proof -
  have "post (probeNewArc k n v) (same_frame v)"
    unfolding probeNewArc_def
    by (simp add: post_simps, (intro postI conjI impI allI | simp add: post_simps)+)
       (auto dest!: addCircleEvent_frame simp: same_frame_def)
  then show ?thesis using assms by (rule postD)
qed

lemma insertArc_SweepLine:
  assumes "insertArc G a s v = Inr p"
  shows "SweepLine (fst p) = SweepLine v \<and> Sites (fst p) = Sites v"
proof -
  have "post (insertArc G a s v) (\<lambda>p. SweepLine (fst p) = SweepLine v \<and> Sites (fst p) = Sites v)"
    unfolding insertArc_def
    by (simp add: post_simps, (intro postI conjI impI allI | simp add: post_simps)+)
  then show ?thesis using assms by (rule postD)
qed

lemma newSiteFace_SweepLine:
  "newSiteFace s v = Inr v' \<Longrightarrow> SweepLine v' = SweepLine v \<and> nodes v' = nodes v
     \<and> ParabolaTree v' = ParabolaTree v \<and> events v' = events v \<and> EventQueue v' = EventQueue v"
  by (auto simp: newSiteFace_def NewFace_def bindE_eq_Inr)

lemma handleSiteEvent_SweepLine:
  assumes "handleSiteEvent G k e v = Inr v'" shows "SweepLine v' = SweepLine v"
proof -
  have "post (handleSiteEvent G k e v) (\<lambda>v'. SweepLine v' = SweepLine v)"
    unfolding handleSiteEvent_def
    by (simp add: post_simps allocNode_def, (intro postI conjI impI allI | simp add: post_simps allocNode_def)+)
       (auto dest!: removeCircleEvent_frame probeNewArc_frame newSiteFace_SweepLine
          insertArc_SweepLine simp: same_frame_def)
  then show ?thesis using assms by (rule postD)
qed


text \<open>
  C6. A popped event whose trigger y is below the sweep position is dropped: the step
  returns the state the pop left, with the sweep position, the tree, the nodes, the
  graph and the sites as they were.
\<close>

theorem stale_event_discarded:
  assumes "EventQueue_Pop v = Inr (e, v1)" and "Event_Y (events v ! e) < SweepLine v"
  shows "HandleNextEvent G k v = Inr v1 \<and> SweepLine v1 = SweepLine v
         \<and> ParabolaTree v1 = ParabolaTree v \<and> nodes v1 = nodes v \<and> DCEL v1 = DCEL v
         \<and> Sites v1 = Sites v"
proof -
  note p = Pop_props[OF assms(1)]
  have ev: "getEvent (events v1) e = Inr ((events v ! e)\<lparr>index := - 1\<rparr>)"
    using p(1) by (simp add: p(3) getEvent_def updEvent_def)
  have "HandleNextEvent G k v = Inr v1"
    using p(2) assms(2) by (simp add: HandleNextEvent_def assms(1) ev) (simp add: p(3) updEvent_def)
  then show ?thesis by (simp add: p(3) updEvent_def)
qed

theorem stale_event_discarded_witness:
  "EventQueue_Pop late_state =
      Inr (0, updEvent 0 (\<lambda>ev. ev\<lparr>index := - 1\<rparr>) (late_state\<lparr>EventQueue := [1]\<rparr>))
   \<and> Event_Y (events late_state ! 0) < SweepLine late_state
   \<and> HandleNextEvent flat_geometry 5 late_state =
      Inr (updEvent 0 (\<lambda>ev. ev\<lparr>index := - 1\<rparr>) (late_state\<lparr>EventQueue := [1]\<rparr>))"
proof -
  have a: "EventQueue_Pop late_state =
      Inr (0, updEvent 0 (\<lambda>ev. ev\<lparr>index := - 1\<rparr>) (late_state\<lparr>EventQueue := [1]\<rparr>))"
    by (simp add: EventQueue_Pop_def late_state_def New_def NewEventQueue_def two_sites_def Let_def)
  have b: "Event_Y (events late_state ! 0) < SweepLine late_state"
    by (simp add: late_state_def New_def NewEventQueue_def two_sites_def)
  from stale_event_discarded[OF a b, of flat_geometry 5] a b show ?thesis by simp
qed


lemma first_step:
  "HandleNextEvent flat_geometry 5 (Reset (New two_sites ((0, 0), (10, 10)))) = Inr first_site_state"
  by (simp add: model_defs flat_geometry_def two_sites_def first_site_state_def eval_nat_numeral
           cong: bindE_weak_cong let_weak_cong)

lemma second_step:
  "HandleNextEvent flat_geometry 5 first_site_state = Inr second_site_state"
  by (simp add: model_defs flat_geometry_def first_site_state_def second_site_state_def eval_nat_numeral
           cong: bindE_weak_cong let_weak_cong)

lemma stale_step:
  "HandleNextEvent flat_geometry 5 stale_state = Inr stale_state_after"
  by (simp add: model_defs flat_geometry_def stale_state_def stale_state_after_def eval_nat_numeral
           cong: bindE_weak_cong let_weak_cong)

lemma HandleNextEvent_SweepLine:
  assumes "HandleNextEvent G k v = Inr v'" shows "SweepLine v \<le> SweepLine v'"
proof (cases "int (length (EventQueue v)) \<le> 0")
  case True
  with assms show ?thesis by (simp add: HandleNextEvent_def)
next
  case False
  with assms obtain e v1 ev where
    pop: "EventQueue_Pop v = Inr (e, v1)" and ev: "getEvent (events v1) e = Inr ev"
    and rest: "(if Event_Y ev < SweepLine v1 then Inr v1
          else let v2 = v1\<lparr>SweepLine := Event_Y ev\<rparr> in
               if EventType ev = EventSite then handleSiteEvent G k e v2
               else handleCircleEvent k e v2) = Inr v'"
    by (auto simp: HandleNextEvent_def bindE_eq_Inr)
  have s1: "SweepLine v1 = SweepLine v" using Pop_props(3)[OF pop] by simp
  show ?thesis
  proof (cases "Event_Y ev < SweepLine v1")
    case True
    with rest s1 show ?thesis by simp
  next
    case False
    with rest have "handleSiteEvent G k e (v1\<lparr>SweepLine := Event_Y ev\<rparr>) = Inr v'
        \<or> handleCircleEvent k e (v1\<lparr>SweepLine := Event_Y ev\<rparr>) = Inr v'"
      by (auto simp: Let_def split: if_splits)
    then have "SweepLine v' = Event_Y ev"
      by (auto dest!: handleSiteEvent_SweepLine handleCircleEvent_SweepLine)
    with False s1 show ?thesis by simp
  qed
qed

lemma advance_SweepLine:
  "advance G k n v = Inr v' \<Longrightarrow> SweepLine v \<le> SweepLine v'"
proof (induction n arbitrary: v)
  case 0 then show ?case by simp
next
  case (Suc n)
  then obtain v1 where a: "HandleNextEvent G k v = Inr v1" and b: "advance G k n v1 = Inr v'"
    by (auto simp: bindE_eq_Inr)
  from HandleNextEvent_SweepLine[OF a] Suc.IH[OF b] show ?case by simp
qed

lemma SweepLine_Reset [simp]: "SweepLine (Reset v) = 0"
  by (simp add: Reset_def split_beta)

text \<open>
  C2. From a reset state, after any number of steps, the sweep position is not negative
  and one more step that returns leaves it where it was or moves it forward.
\<close>

theorem sweep_never_decreases:
  assumes "advance G k n (Reset v0) = Inr v" and "HandleNextEvent G k v = Inr v'"
  shows "0 \<le> SweepLine v \<and> SweepLine v \<le> SweepLine v'"
  using advance_SweepLine[OF assms(1)] HandleNextEvent_SweepLine[OF assms(2)] by simp

theorem sweep_never_decreases_witness:
  "advance flat_geometry 5 1 (Reset (New two_sites ((0, 0), (10, 10)))) = Inr first_site_state
   \<and> HandleNextEvent flat_geometry 5 first_site_state = Inr second_site_state
   \<and> SweepLine first_site_state = 0 \<and> SweepLine second_site_state = 5"
proof -
  have a: "advance flat_geometry 5 1 (Reset (New two_sites ((0, 0), (10, 10)))) = Inr first_site_state"
    by (simp add: first_step)
  from sweep_never_decreases[OF a second_step] a second_step show ?thesis
    by (simp add: first_site_state_def second_site_state_def)
qed

text \<open>
  C1, as the code has it. The step loop never looks at \<open>MiddleEvents\<close>: a popped circle
  event whose trigger y is not below the sweep position goes to \<open>handleCircleEvent\<close>,
  whatever its middle arc lists, and a handler that returns has added the vertex of the
  event.
\<close>

theorem circle_event_always_dispatched:
  assumes "EventQueue_Pop v = Inr (e, v1)"
    and "EventType (events v ! e) = EventCircle"
    and "\<not> Event_Y (events v ! e) < SweepLine v"
  shows "HandleNextEvent G k v = handleCircleEvent k e (v1\<lparr>SweepLine := Event_Y (events v ! e)\<rparr>)
       \<and> post (HandleNextEvent G k v) (\<lambda>v'. Vertices (DCEL v') = Vertices (DCEL v) @
             [(Event_X (events v ! e), wrap64 (Event_Y (events v ! e) - Radius (events v ! e)))])"
proof -
  note p = Pop_props[OF assms(1)]
  have ev: "getEvent (events v1) e = Inr ((events v ! e)\<lparr>index := - 1\<rparr>)"
    using p(1) by (simp add: p(3) getEvent_def updEvent_def)
  have s1: "SweepLine v1 = SweepLine v" "DCEL v1 = DCEL v" using p(3) by simp_all
  have e1: "events v1 ! e = (events v ! e)\<lparr>index := - 1\<rparr>" using p(1) by (simp add: p(3) updEvent_def)
  have h: "HandleNextEvent G k v = handleCircleEvent k e (v1\<lparr>SweepLine := Event_Y (events v ! e)\<rparr>)"
    using p(2) assms(2,3) by (simp add: HandleNextEvent_def assms(1) ev s1 Let_def)
  have "post (handleCircleEvent k e (v1\<lparr>SweepLine := Event_Y (events v ! e)\<rparr>))
      (\<lambda>v'. Vertices (DCEL v') = Vertices (DCEL v) @
             [(Event_X (events v ! e), wrap64 (Event_Y (events v ! e) - Radius (events v ! e)))])"
    by (rule postI) (auto dest!: handleCircleEvent_Vertices simp: s1 e1)
  with h show ?thesis by simp
qed

theorem circle_event_always_dispatched_witness:
  "EventQueue_Pop stale_state =
      Inr (0, updEvent 0 (\<lambda>ev. ev\<lparr>index := - 1\<rparr>) (stale_state\<lparr>EventQueue := []\<rparr>))
   \<and> EventType (events stale_state ! 0) = EventCircle
   \<and> \<not> Event_Y (events stale_state ! 0) < SweepLine stale_state
   \<and> HandleNextEvent flat_geometry 5 stale_state = Inr stale_state_after
   \<and> Vertices (DCEL stale_state_after) = Vertices (DCEL stale_state) @ [(5, 5)]"
proof -
  have a: "EventQueue_Pop stale_state =
      Inr (0, updEvent 0 (\<lambda>ev. ev\<lparr>index := - 1\<rparr>) (stale_state\<lparr>EventQueue := []\<rparr>))"
    by (simp add: EventQueue_Pop_def stale_state_def Let_def)
  have b: "EventType (events stale_state ! 0) = EventCircle" by (simp add: stale_state_def)
  have c: "\<not> Event_Y (events stale_state ! 0) < SweepLine stale_state" by (simp add: stale_state_def)
  from circle_event_always_dispatched[OF a b c, of flat_geometry 5] a b c stale_step
  show ?thesis by (simp add: stale_state_def stale_state_after_def)
qed

text \<open>
  C1 as stated fails: in \<open>stale_state\<close> the middle arc of the queued circle event does not
  list it, and the step adds a vertex and a pair of half-edges and removes the arc.
\<close>

theorem unlisted_circle_event_is_handled:
  "Event_Node (events stale_state ! 0) = Some 3
   \<and> \<not> HasEvent 0 (MiddleEvents (nodes stale_state ! 3))
   \<and> HandleNextEvent flat_geometry 5 stale_state = Inr stale_state_after
   \<and> Vertices (DCEL stale_state) = [] \<and> Vertices (DCEL stale_state_after) = [(5, 5)]
   \<and> Left (nodes stale_state ! 0) = Some 1 \<and> Left (nodes stale_state_after ! 0) = Some 2
   \<and> length (HalfEdges (DCEL stale_state)) = 0 \<and> length (HalfEdges (DCEL stale_state_after)) = 2"
  using stale_step by (simp add: stale_state_def stale_state_after_def newNode_def)


section \<open>\<open>calcCircle\<close>\<close>








section \<open>\<open>addCircleEvent\<close>\<close>

lemma arcSite_get:
  assumes "arcSite v a = Some s"
  shows "getNode (nodes v) (Some a) = Inr (nodes v ! a)"
    and "getSite (Sites v) (Site (nodes v ! a)) = Inr s" and "a < length (nodes v)"
  using assms by (auto simp: arcSite_def getNode_def getSite_def split: if_splits option.splits)

lemma modNode_Some: "a < length (nodes v) \<Longrightarrow> modNode (Some a) f v = Inr (updNode a f v)"
  by (simp add: modNode_def getNode_def)

lemma length_nodes_updNode [simp]: "length (nodes (updNode a f v)) = length (nodes v)"
  by (simp add: updNode_def)

lemma nodes_Push_events [simp]:
  "events (EventQueue_Push e v) = (events v)[e := (events v ! e)\<lparr>index := int (length (EventQueue v))\<rparr>]"
  "EventQueue (EventQueue_Push e v) = EventQueue v @ [e]"
  by (simp_all add: EventQueue_Push_def updEvent_def)

text \<open>
  C4. \<open>addCircleEvent\<close> returns the state unchanged when one of the arcs is nil, when
  \<open>calcCircle\<close> rejects the three sites, and when the bottom point \<open>y + r\<close> (the 64-bit
  sum) is below the sweep position. Otherwise it queues exactly one new circle event,
  whose trigger y is that bottom point and whose node is the second arc, and appends it
  to \<open>LeftEvents\<close> of the first arc, \<open>MiddleEvents\<close> of the second and \<open>RightEvents\<close>
  of the third; nothing else of the tree or the graph changes.
\<close>

theorem addCircleEvent_effect:
  "(arc1 = None \<or> arc2 = None \<or> arc3 = None \<longrightarrow> addCircleEvent arc1 arc2 arc3 v = Inr v)
   \<and> (arcSite v a1 = Some s1 \<and> arcSite v a2 = Some s2 \<and> arcSite v a3 = Some s3 \<longrightarrow>
       (case calcCircle s1 s2 s3 of
          Inl err \<Rightarrow> addCircleEvent (Some a1) (Some a2) (Some a3) v = Inr v
        | Inr (x, y, r) \<Rightarrow>
            if wrap64 (y + r) < SweepLine v
            then addCircleEvent (Some a1) (Some a2) (Some a3) v = Inr v
            else (\<exists>v'. addCircleEvent (Some a1) (Some a2) (Some a3) v = Inr v'
                   \<and> EventQueue v' = EventQueue v @ [length (events v)]
                   \<and> events v' = events v @
                        [\<lparr>EventType = EventCircle, Event_X = x, Event_Y = wrap64 (y + r), Radius = r,
                          Event_Node = Some a2, Event_Site = None,
                          index = int (length (EventQueue v))\<rparr>]
                   \<and> LeftEvents (nodes v' ! a1) = LeftEvents (nodes v ! a1) @ [length (events v)]
                   \<and> MiddleEvents (nodes v' ! a2) = MiddleEvents (nodes v ! a2) @ [length (events v)]
                   \<and> RightEvents (nodes v' ! a3) = RightEvents (nodes v ! a3) @ [length (events v)]
                   \<and> length (nodes v') = length (nodes v)
                   \<and> ParabolaTree v' = ParabolaTree v \<and> same_frame v v')))"
proof (intro conjI impI)
  assume "arc1 = None \<or> arc2 = None \<or> arc3 = None"
  then show "addCircleEvent arc1 arc2 arc3 v = Inr v" by (auto simp: addCircleEvent_def)
next
  assume a: "arcSite v a1 = Some s1 \<and> arcSite v a2 = Some s2 \<and> arcSite v a3 = Some s3"
  note g1 = arcSite_get[of v a1 s1] and g2 = arcSite_get[of v a2 s2] and g3 = arcSite_get[of v a3 s3]
  have pre: "addCircleEvent (Some a1) (Some a2) (Some a3) v =
      (case calcCircle s1 s2 s3 of
            Inl err \<Rightarrow> Inr v
          | Inr (x, y, r) \<Rightarrow>
              let bottomY = wrap64 (y + r) in
              if bottomY < SweepLine v then Inr v
              else
                let event = length (events v);
                    v1 = v\<lparr>events := events v @
                           [\<lparr>EventType = EventCircle, Event_X = x, Event_Y = bottomY, Radius = r,
                             Event_Node = None, Event_Site = None, index = 0\<rparr>]\<rparr>;
                    v2 = EventQueue_Push event v1
                in
                bindE (AddLeftEvent (Some a1) event v2) (\<lambda>v3.
                bindE (AddMiddleEvent (Some a2) event v3) (\<lambda>v4.
                bindE (AddRightEvent (Some a3) event v4) (\<lambda>v5.
                  Inr (updEvent event (\<lambda>ev. ev\<lparr>Event_Node := Some a2\<rparr>) v5)))))"
    using a g1 g2 g3 by (simp add: addCircleEvent_def)
  show "case calcCircle s1 s2 s3 of
          Inl err \<Rightarrow> addCircleEvent (Some a1) (Some a2) (Some a3) v = Inr v
        | Inr (x, y, r) \<Rightarrow>
            if wrap64 (y + r) < SweepLine v
            then addCircleEvent (Some a1) (Some a2) (Some a3) v = Inr v
            else (\<exists>v'. addCircleEvent (Some a1) (Some a2) (Some a3) v = Inr v'
                   \<and> EventQueue v' = EventQueue v @ [length (events v)]
                   \<and> events v' = events v @
                        [\<lparr>EventType = EventCircle, Event_X = x, Event_Y = wrap64 (y + r), Radius = r,
                          Event_Node = Some a2, Event_Site = None,
                          index = int (length (EventQueue v))\<rparr>]
                   \<and> LeftEvents (nodes v' ! a1) = LeftEvents (nodes v ! a1) @ [length (events v)]
                   \<and> MiddleEvents (nodes v' ! a2) = MiddleEvents (nodes v ! a2) @ [length (events v)]
                   \<and> RightEvents (nodes v' ! a3) = RightEvents (nodes v ! a3) @ [length (events v)]
                   \<and> length (nodes v') = length (nodes v)
                   \<and> ParabolaTree v' = ParabolaTree v \<and> same_frame v v')"
  proof (cases "calcCircle s1 s2 s3")
    case (Inl err)
    then show ?thesis by (simp add: pre)
  next
    case (Inr c)
    obtain x y r where c: "c = (x, y, r)" by (cases c) auto
    show ?thesis
    proof (cases "wrap64 (y + r) < SweepLine v")
      case True
      then show ?thesis by (simp add: pre Inr c)
    next
      case False
      have l: "a1 < length (nodes v)" "a2 < length (nodes v)" "a3 < length (nodes v)"
        using a g1(3) g2(3) g3(3) by auto
      show ?thesis using False l
        by (simp add: pre Inr c Let_def AddLeftEvent_def AddMiddleEvent_def AddRightEvent_def
              modNode_Some updNode_def updEvent_def EventQueue_Push_def same_frame_def nth_list_update
              nth_append)
    qed
  qed
qed

lemma calcCircle_three_arcs:
  "calcCircle \<lparr>X = 0, Y = 5, ID = i1, Face = f1\<rparr> \<lparr>X = 1, Y = 2, ID = i2, Face = f2\<rparr>
      \<lparr>X = 5, Y = 0, ID = i3, Face = f3\<rparr> = Inr (5, 5, 5)"
proof -
  have r: "sqrt 25 = 5" by (rule real_sqrt_unique) simp_all
  have t: "toInt (11 / 2) = 5" by (simp add: toInt_def)
  show ?thesis
    apply (simp add: calcCircle_def Let_def r t power2_eq_square)
    done
qed

lemma calcCircle_three_arcs_reversed:
  "calcCircle \<lparr>X = 5, Y = 0, ID = i3, Face = f3\<rparr> \<lparr>X = 1, Y = 2, ID = i2, Face = f2\<rparr>
      \<lparr>X = 0, Y = 5, ID = i1, Face = f1\<rparr> = Inl Clockwise"
  by (simp add: calcCircle_def Let_def)

lemma three_arcs_sites:
  "arcSite three_arcs_state 2 = Some \<lparr>X = 0, Y = 5, ID = 0, Face = Some 0\<rparr>"
  "arcSite three_arcs_state 3 = Some \<lparr>X = 1, Y = 2, ID = 1, Face = Some 1\<rparr>"
  "arcSite three_arcs_state 4 = Some \<lparr>X = 5, Y = 0, ID = 2, Face = Some 2\<rparr>"
  "arcSite (three_arcs_state\<lparr>SweepLine := 11\<rparr>) 2 = Some \<lparr>X = 0, Y = 5, ID = 0, Face = Some 0\<rparr>"
  "arcSite (three_arcs_state\<lparr>SweepLine := 11\<rparr>) 3 = Some \<lparr>X = 1, Y = 2, ID = 1, Face = Some 1\<rparr>"
  "arcSite (three_arcs_state\<lparr>SweepLine := 11\<rparr>) 4 = Some \<lparr>X = 5, Y = 0, ID = 2, Face = Some 2\<rparr>"
  by (simp_all add: arcSite_def three_arcs_state_def stale_state_def newNode_def)

theorem addCircleEvent_effect_witness:
  "addCircleEvent None (Some 3) (Some 4) three_arcs_state = Inr three_arcs_state
   \<and> addCircleEvent (Some 4) (Some 3) (Some 2) three_arcs_state = Inr three_arcs_state
   \<and> addCircleEvent (Some 2) (Some 3) (Some 4) (three_arcs_state\<lparr>SweepLine := 11\<rparr>)
        = Inr (three_arcs_state\<lparr>SweepLine := 11\<rparr>)
   \<and> SweepLine three_arcs_state = 5
   \<and> map_sum id (\<lambda>v'. (EventQueue v', events v', LeftEvents (nodes v' ! 2),
          MiddleEvents (nodes v' ! 3), RightEvents (nodes v' ! 4)))
        (addCircleEvent (Some 2) (Some 3) (Some 4) three_arcs_state)
      = Inr ([0], [\<lparr>EventType = EventCircle, Event_X = 5, Event_Y = 10, Radius = 5,
                     Event_Node = Some 3, Event_Site = None, index = 0\<rparr>], [0], [0], [0])"
proof -
  let ?A = "\<lparr>X = 0, Y = 5, ID = 0, Face = Some 0\<rparr>"
  let ?B = "\<lparr>X = 1, Y = 2, ID = 1, Face = Some 1\<rparr>"
  let ?C = "\<lparr>X = 5, Y = 0, ID = 2, Face = Some 2\<rparr>"
  have w: "wrap64 10 = 10" by (simp add: wrap64_def)
  have s: "SweepLine three_arcs_state = 5" "EventQueue three_arcs_state = []"
    "events three_arcs_state = []" "LeftEvents (nodes three_arcs_state ! 2) = []"
    "MiddleEvents (nodes three_arcs_state ! 3) = []" "RightEvents (nodes three_arcs_state ! 4) = []"
    by (simp_all add: three_arcs_state_def stale_state_def newNode_def)
  from addCircleEvent_effect[of None "Some 3" "Some 4" three_arcs_state]
  have 1: "addCircleEvent None (Some 3) (Some 4) three_arcs_state = Inr three_arcs_state" by simp
  from addCircleEvent_effect[of None None None three_arcs_state 4 ?C 3 ?B 2 ?A]
  have 2: "addCircleEvent (Some 4) (Some 3) (Some 2) three_arcs_state = Inr three_arcs_state"
    by (simp add: three_arcs_sites calcCircle_three_arcs_reversed)
  from addCircleEvent_effect[of None None None "three_arcs_state\<lparr>SweepLine := 11\<rparr>" 2 ?A 3 ?B 4 ?C]
  have 3: "addCircleEvent (Some 2) (Some 3) (Some 4) (three_arcs_state\<lparr>SweepLine := 11\<rparr>)
        = Inr (three_arcs_state\<lparr>SweepLine := 11\<rparr>)"
    by (simp add: three_arcs_sites calcCircle_three_arcs w)
  from addCircleEvent_effect[of None None None three_arcs_state 2 ?A 3 ?B 4 ?C]
  have 4: "map_sum id (\<lambda>v'. (EventQueue v', events v', LeftEvents (nodes v' ! 2),
          MiddleEvents (nodes v' ! 3), RightEvents (nodes v' ! 4)))
        (addCircleEvent (Some 2) (Some 3) (Some 4) three_arcs_state)
      = Inr ([0], [\<lparr>EventType = EventCircle, Event_X = 5, Event_Y = 10, Radius = 5,
                     Event_Node = Some 3, Event_Site = None, index = 0\<rparr>], [0], [0], [0])"
    by (auto simp: three_arcs_sites calcCircle_three_arcs w s)
  from 1 2 3 4 s(1) show ?thesis by simp
qed

section \<open>The ends of the beach line\<close>

lemma tree_at_root: "tree_at ns par t \<Longrightarrow> rootOf t < length ns \<and> Parent (ns ! rootOf t) = par"
  by (cases t) auto

lemma tree_at_leftmost:
  "tree_at ns par t \<Longrightarrow> leftmost t < length ns \<and> Left (ns ! leftmost t) = None
     \<and> Right (ns ! leftmost t) = None"
  by (induction t arbitrary: par) auto

lemma tree_at_rightmost:
  "tree_at ns par t \<Longrightarrow> rightmost t < length ns \<and> Left (ns ! rightmost t) = None
     \<and> Right (ns ! rightmost t) = None"
  by (induction t arbitrary: par) auto

text \<open>
  The climb of \<open>PrevArc\<close> from the leftmost leaf of a subtree leaves the subtree at its
  rootOf, one iteration for each level.
\<close>

lemma leftDepth_le_height: "leftDepth t \<le> height t"
  by (induction t) auto

lemma rightDepth_le_height: "rightDepth t \<le> height t"
  by (induction t) auto

lemma PrevArc_loop_leftmost:
  "tree_at ns par t \<Longrightarrow>
     (case Parent (ns ! leftmost t) of None \<Rightarrow> Inr None
      | Some p \<Rightarrow> PrevArc_loop (k + leftDepth t) ns p (leftmost t))
   = (case par of None \<Rightarrow> Inr None | Some p \<Rightarrow> PrevArc_loop k ns p (rootOf t))"
proof (induction t arbitrary: par k)
  case (Arc a)
  then show ?case by (simp split: option.splits)
next
  case (Breakpoint a l r)
  from Breakpoint.prems have l: "tree_at ns (Some a) l" and a: "a < length ns"
    "Left (ns ! a) = Some (rootOf l)" "Parent (ns ! a) = par" by auto
  have "(case Parent (ns ! leftmost l) of None \<Rightarrow> Inr None
      | Some p \<Rightarrow> PrevArc_loop (Suc k + leftDepth l) ns p (leftmost l))
     = PrevArc_loop (Suc k) ns a (rootOf l)"
    using Breakpoint.IH(1)[OF l, of "Suc k"] by simp
  also have "\<dots> = (case par of None \<Rightarrow> Inr None | Some p \<Rightarrow> PrevArc_loop k ns p a)"
    using a by (simp add: getNode_def)
  finally show ?case by (simp cong: option.case_cong)
qed

lemma NextArc_loop_rightmost:
  "tree_at ns par t \<Longrightarrow>
     (case Parent (ns ! rightmost t) of None \<Rightarrow> Inr None
      | Some p \<Rightarrow> NextArc_loop (k + rightDepth t) ns p (rightmost t))
   = (case par of None \<Rightarrow> Inr None | Some p \<Rightarrow> NextArc_loop k ns p (rootOf t))"
proof (induction t arbitrary: par k)
  case (Arc a)
  then show ?case by (simp split: option.splits)
next
  case (Breakpoint a l r)
  from Breakpoint.prems have r: "tree_at ns (Some a) r" and a: "a < length ns"
    "Right (ns ! a) = Some (rootOf r)" "Parent (ns ! a) = par" by auto
  have "(case Parent (ns ! rightmost r) of None \<Rightarrow> Inr None
      | Some p \<Rightarrow> NextArc_loop (Suc k + rightDepth r) ns p (rightmost r))
     = NextArc_loop (Suc k) ns a (rootOf r)"
    using Breakpoint.IH(2)[OF r, of "Suc k"] by simp
  also have "\<dots> = (case par of None \<Rightarrow> Inr None | Some p \<Rightarrow> NextArc_loop k ns p a)"
    using a by (simp add: getNode_def)
  finally show ?case by (simp cong: option.case_cong)
qed

lemma PrevArc_leftmost:
  assumes "tree_at ns None t" and "leftDepth t \<le> fuel"
  shows "PrevArc fuel ns (Some (leftmost t)) = Inr None"
proof -
  from assms(2) obtain k where k: "fuel = k + leftDepth t" by (metis le_Suc_ex add.commute)
  from tree_at_leftmost[OF assms(1)] have
    "PrevArc fuel ns (Some (leftmost t)) =
       (case Parent (ns ! leftmost t) of None \<Rightarrow> Inr None
        | Some p \<Rightarrow> PrevArc_loop (k + leftDepth t) ns p (leftmost t))"
    by (simp add: PrevArc_def IsLeaf_def getNode_def k)
  also have "\<dots> = Inr None" using PrevArc_loop_leftmost[OF assms(1), of k] by simp
  finally show ?thesis .
qed

lemma NextArc_rightmost:
  assumes "tree_at ns None t" and "rightDepth t \<le> fuel"
  shows "NextArc fuel ns (Some (rightmost t)) = Inr None"
proof -
  from assms(2) obtain k where k: "fuel = k + rightDepth t" by (metis le_Suc_ex add.commute)
  from tree_at_rightmost[OF assms(1)] have
    "NextArc fuel ns (Some (rightmost t)) =
       (case Parent (ns ! rightmost t) of None \<Rightarrow> Inr None
        | Some p \<Rightarrow> NextArc_loop (k + rightDepth t) ns p (rightmost t))"
    by (simp add: NextArc_def IsLeaf_def getNode_def k)
  also have "\<dots> = Inr None" using NextArc_loop_rightmost[OF assms(1), of k] by simp
  finally show ?thesis .
qed

text \<open>
  C10. In a heap that holds a tree below the root, with fuel for the height of the tree,
  \<open>PrevArc\<close> of the leftmost leaf and \<open>NextArc\<close> of the rightmost leaf return nil (the
  single root leaf is both); \<open>PrevArc\<close> and \<open>NextArc\<close> of nil return nil; and
  \<open>addCircleEvent\<close> with a nil first or third arc returns the state as it is.
\<close>

theorem ends_of_beach_line:
  assumes "tree_at ns None t" and "height t \<le> fuel"
  shows "PrevArc fuel ns (Some (leftmost t)) = Inr None
       \<and> NextArc fuel ns (Some (rightmost t)) = Inr None
       \<and> PrevArc fuel ns None = Inr None \<and> NextArc fuel ns None = Inr None
       \<and> addCircleEvent None b c v = Inr v \<and> addCircleEvent a b None v = Inr v"
proof -
  have l: "leftDepth t \<le> fuel" using leftDepth_le_height[of t] assms(2) by simp
  have r: "rightDepth t \<le> fuel" using rightDepth_le_height[of t] assms(2) by simp
  show ?thesis
    using PrevArc_leftmost[OF assms(1) l] NextArc_rightmost[OF assms(1) r]
    by (simp add: PrevArc_def NextArc_def addCircleEvent_def)
qed

theorem ends_of_beach_line_witness:
  "tree_at (nodes three_arcs_state) None three_arcs \<and> height three_arcs \<le> 2
   \<and> leftmost three_arcs = 2 \<and> rightmost three_arcs = 4
   \<and> PrevArc 2 (nodes three_arcs_state) (Some 2) = Inr None
   \<and> NextArc 2 (nodes three_arcs_state) (Some 4) = Inr None
   \<and> tree_at [newNode (Some 0) None] None (Arc 0)
   \<and> PrevArc 0 [newNode (Some 0) None] (Some 0) = Inr None
   \<and> NextArc 0 [newNode (Some 0) None] (Some 0) = Inr None
   \<and> addCircleEvent None (Some 2) (Some 3) three_arcs_state = Inr three_arcs_state"
proof -
  have a: "tree_at (nodes three_arcs_state) None three_arcs"
    by (simp add: three_arcs_def three_arcs_state_def stale_state_def newNode_def)
  have b: "height three_arcs \<le> 2" by (simp add: three_arcs_def)
  have c: "tree_at [newNode (Some 0) None] None (Arc 0)" by (simp add: newNode_def)
  have d: "height (Arc 0) \<le> 0" by simp
  from ends_of_beach_line[OF a b, where b = "Some 2" and c = "Some 3" and v = three_arcs_state]
    ends_of_beach_line[OF c d, where v = three_arcs_state] a b c
  show ?thesis by (simp add: three_arcs_def)
qed

section \<open>The shape of the tree\<close>

lemma map_links_length: "map links ns' = map links ns \<Longrightarrow> length ns' = length ns"
  by (rule map_eq_imp_length_eq)

lemma map_links_nth:
  assumes "map links ns' = map links ns" and "a < length ns"
  shows "Parent (ns' ! a) = Parent (ns ! a)" "Left (ns' ! a) = Left (ns ! a)"
    "Right (ns' ! a) = Right (ns ! a)"
proof -
  have len: "length ns' = length ns" using assms(1) by (rule map_links_length)
  have "links (ns' ! a) = links (ns ! a)" using assms len by (metis nth_map)
  then show "Parent (ns' ! a) = Parent (ns ! a)" "Left (ns' ! a) = Left (ns ! a)"
    "Right (ns' ! a) = Right (ns ! a)" by (simp_all add: links_def)
qed

lemma tree_at_links:
  assumes "map links ns' = map links ns"
  shows "tree_at ns' par t = tree_at ns par t"
proof (induction t arbitrary: par)
  case (Arc a)
  show ?case
  proof (cases "a < length ns")
    case True
    then show ?thesis
      using map_links_nth[OF assms True] map_links_length[OF assms] by simp
  next
    case False
    then show ?thesis using map_links_length[OF assms] by simp
  qed
next
  case (Breakpoint a l r)
  show ?case
  proof (cases "a < length ns")
    case True
    then show ?thesis
      using map_links_nth[OF assms True] map_links_length[OF assms] Breakpoint.IH by simp
  next
    case False
    then show ?thesis using map_links_length[OF assms] by simp
  qed
qed

lemma same_links_refl [simp]: "same_links v v" by (simp add: same_links_def)

lemma same_links_trans: "same_links v v1 \<Longrightarrow> same_links v1 v2 \<Longrightarrow> same_links v v2"
  by (simp add: same_links_def)

lemma same_links_simps [simp]:
  "same_links v (updEvent e g v1) = same_links v v1"
  "same_links v (EventQueue_Push e v1) = same_links v v1"
  "same_links v (EventQueue_Remove e v1) = same_links v v1"
  "same_links v (v1\<lparr>events := es\<rparr>) = same_links v v1"
  "same_links v (v1\<lparr>DCEL := d\<rparr>) = same_links v v1"
  by (simp_all add: same_links_def)

lemma same_links_updNode:
  "(\<And>n. links (f n) = links n) \<Longrightarrow> same_links v (updNode a f v1) = same_links v v1"
  by (simp add: same_links_def updNode_def map_update) (metis list_update_id map_update)

lemma modNode_links:
  "(\<And>n. links (f n) = links n) \<Longrightarrow> modNode p f v = Inr v' \<Longrightarrow> same_links v v'"
  by (auto simp: modNode_def bindE_eq_Inr same_links_updNode)

lemma addCircleEvent_links:
  assumes "addCircleEvent a b c v = Inr v'" shows "same_links v v'"
proof -
  have "post (addCircleEvent a b c v) (same_links v)"
    unfolding addCircleEvent_def AddLeftEvent_def AddMiddleEvent_def AddRightEvent_def
    by (simp add: post_simps, (intro postI conjI impI allI | simp add: post_simps)+)
       (auto dest!: modNode_links[rotated] simp: links_def same_links_def)
  then show ?thesis using assms by (rule postD)
qed

lemma removeCircleEvent_loop_links:
  "removeCircleEvent_loop es v = Inr v' \<Longrightarrow> same_links v v'"
proof (induction es arbitrary: v)
  case Nil then show ?case by simp
next
  case (Cons e es)
  then show ?case
    by (auto simp: bindE_eq_Inr split: if_splits dest!: Cons.IH simp: same_links_def)
qed

lemma removeCircleEvent_links:
  assumes "removeCircleEvent k n v = Inr v'" shows "same_links v v'"
proof -
  have "post (removeCircleEvent k n v) (same_links v)"
    unfolding removeCircleEvent_def
    by (simp add: post_simps, (intro postI conjI impI allI | simp add: post_simps)+)
       (auto dest!: modNode_links[rotated] removeCircleEvent_loop_links simp: links_def same_links_def)
  then show ?thesis using assms by (rule postD)
qed

lemma tree_at_addrs: "tree_at ns par t \<Longrightarrow> x \<in> set (addrs t) \<Longrightarrow> x < length ns"
  by (induction t arbitrary: par) auto

lemma set_addrs: "set (addrs t) = set (arcs t) \<union> set (breakpoints t)"
  by (induction t) auto

lemma rootOf_addrs: "rootOf t \<in> set (addrs t)"
  by (cases t) auto

lemma distinct_addrs_arcs: "distinct (addrs t) \<Longrightarrow> distinct (arcs t) \<and> set (arcs t) \<inter> set (breakpoints t) = {}"
  by (induction t) (auto simp: set_addrs)

lemma findNodeAbove_loop_arc:
  "findNodeAbove_loop G k v s nd = Inr r \<Longrightarrow> tree_at (nodes v) par u \<Longrightarrow> nd = Some (rootOf u)
   \<Longrightarrow> \<exists>a. r = Some a \<and> a \<in> set (arcs u)"
proof (induction k arbitrary: nd par u)
  case 0
  then show ?case by simp
next
  case (Suc k)
  show ?case
  proof (cases u)
    case (Arc a)
    with Suc.prems show ?thesis by (simp add: IsLeaf_def getNode_def)
  next
    case (Breakpoint b x y)
    with Suc.prems(2) have b: "b < length (nodes v)" "Left (nodes v ! b) = Some (rootOf x)"
      "Right (nodes v ! b) = Some (rootOf y)" "tree_at (nodes v) (Some b) x"
      "tree_at (nodes v) (Some b) y" by auto
    from Suc.prems(1,3) Breakpoint b have
      "findNodeAbove_loop G k v s (Some (rootOf x)) = Inr r
       \<or> findNodeAbove_loop G k v s (Some (rootOf y)) = Inr r"
      by (auto simp: IsLeaf_def getNode_def bindE_eq_Inr split: option.splits if_splits)
    then show ?thesis
      using Suc.IH[OF _ b(4) refl] Suc.IH[OF _ b(5) refl] Breakpoint by auto
  qed
qed

lemma rootOf_splitTree [simp]: "rootOf (splitTree a m l n r u) = rootOf u"
  by (cases u) auto

lemma splitTree_absent: "a \<notin> set (arcs u) \<Longrightarrow> splitTree a m l n r u = u"
  by (induction u) auto

lemma arcs_splitTree:
  "a \<in> set (arcs u) \<Longrightarrow> distinct (arcs u) \<Longrightarrow>
   length (arcs (splitTree a m l n r u)) = length (arcs u) + 2
   \<and> length (breakpoints (splitTree a m l n r u)) = length (breakpoints u) + 2
   \<and> set (addrs (splitTree a m l n r u)) = set (addrs u) \<union> {m, l, n, r}"
proof (induction u)
  case (Arc b)
  then show ?case by auto
next
  case (Breakpoint b x y)
  show ?case
  proof (cases "a \<in> set (arcs x)")
    case True
    with Breakpoint.prems have "a \<notin> set (arcs y)" by auto
    with True Breakpoint show ?thesis by (auto simp: splitTree_absent)
  next
    case False
    with Breakpoint.prems have "a \<in> set (arcs y)" by auto
    with False Breakpoint show ?thesis by (auto simp: splitTree_absent)
  qed
qed

lemma distinct_splitTree:
  assumes "distinct (addrs u)" "a \<in> set (arcs u)" "distinct [m, l, n, r]"
    "set (addrs u) \<inter> {m, l, n, r} = {}"
  shows "distinct (addrs (splitTree a m l n r u))"
  using assms
proof (induction u)
  case (Arc b)
  then show ?case by auto
next
  case (Breakpoint b x y)
  have dx: "distinct (arcs x)" and dy: "distinct (arcs y)"
    using Breakpoint.prems(1) distinct_addrs_arcs[of x] distinct_addrs_arcs[of y] by auto
  show ?case
  proof (cases "a \<in> set (arcs x)")
    case True
    with Breakpoint.prems have ny: "a \<notin> set (arcs y)" by (auto simp: set_addrs)
    have "distinct (addrs (splitTree a m l n r x))"
      using Breakpoint.IH(1) Breakpoint.prems True by auto
    moreover have "set (addrs (splitTree a m l n r x)) = set (addrs x) \<union> {m, l, n, r}"
      using arcs_splitTree[OF True dx] by simp
    ultimately show ?thesis using Breakpoint.prems ny by (auto simp: splitTree_absent)
  next
    case False
    with Breakpoint.prems have iy: "a \<in> set (arcs y)" by auto
    have "distinct (addrs (splitTree a m l n r y))"
      using Breakpoint.IH(2) Breakpoint.prems iy by auto
    moreover have "set (addrs (splitTree a m l n r y)) = set (addrs y) \<union> {m, l, n, r}"
      using arcs_splitTree[OF iy dy] by simp
    ultimately show ?thesis using Breakpoint.prems False by (auto simp: splitTree_absent)
  qed
qed

lemma tree_at_splitTree:
  assumes "tree_at ns par u" and "a \<notin> set (breakpoints u)"
    and "length ns \<le> length ns'"
    and "\<And>x. x < length ns \<Longrightarrow> x \<noteq> a \<Longrightarrow> links (ns' ! x) = links (ns ! x)"
    and "Parent (ns' ! a) = Parent (ns ! a)"
    and "\<And>p. Parent (ns' ! a) = p \<Longrightarrow> tree_at ns' p (Breakpoint a (Breakpoint m (Arc l) (Arc n)) (Arc r))"
  shows "tree_at ns' par (splitTree a m l n r u)"
  using assms(1,2)
proof (induction u arbitrary: par)
  case (Arc b)
  show ?case
  proof (cases "b = a")
    case True
    with Arc assms(5,6) show ?thesis by auto
  next
    case False
    with Arc assms(3) assms(4)[of b] show ?thesis by (auto simp: links_def)
  qed
next
  case (Breakpoint b x y)
  then have ne: "b \<noteq> a" and b: "b < length ns" by auto
  from assms(4)[OF b ne] Breakpoint assms(3) show ?case by (auto simp: links_def)
qed

lemma splitArc_result:
  assumes "a < length (nodes v)"
  shows "splitArc a s v =
     (v\<lparr>nodes := (nodes v)[a := (nodes v ! a)\<lparr>Right := Some (length (nodes v)),
                     Left := Some (Suc (length (nodes v))), Site := None, LeftEvents := [],
                     MiddleEvents := [], RightEvents := []\<rparr>]
      @ [(newNode (Site (nodes v ! a)) (Some a))\<lparr>LeftEvents := LeftEvents (nodes v ! a),
             RightEdges := RightEdges (nodes v ! a)\<rparr>,
         (newNode None (Some a))\<lparr>Right := Some (Suc (Suc (length (nodes v)))),
             Left := Some (Suc (Suc (Suc (length (nodes v)))))\<rparr>,
         newNode s (Some (Suc (length (nodes v)))),
         (newNode (Site (nodes v ! a)) (Some (Suc (length (nodes v)))))\<lparr>RightEvents := RightEvents (nodes v ! a),
             LeftEdges := LeftEdges (nodes v ! a)\<rparr>]\<rparr>,
      Suc (Suc (Suc (length (nodes v)))), Suc (Suc (length (nodes v))), length (nodes v))"
  using assms
  by (simp add: splitArc_def allocNode_def updNode_def Let_def nth_append list_update_append
      cong: let_weak_cong)

lemma links_newNode [simp]: "links (newNode s p) = (p, None, None)"
  by (simp add: links_def newNode_def)

lemma links_updates [simp]:
  "links (n\<lparr>LeftEvents := le\<rparr>) = links n" "links (n\<lparr>MiddleEvents := me\<rparr>) = links n"
  "links (n\<lparr>RightEvents := re\<rparr>) = links n" "links (n\<lparr>LeftEdges := ld\<rparr>) = links n"
  "links (n\<lparr>RightEdges := rd\<rparr>) = links n" "links (n\<lparr>Site := s\<rparr>) = links n"
  by (simp_all add: links_def)

lemma map_links_update:
  "links x = links (ns ! a) \<Longrightarrow> map links (ns[a := x]) = map links ns"
  by (simp add: map_update) (metis list_update_id map_update)

text \<open>After \<open>insertArc\<close> the heap holds the tree with the arc split; four nodes are new.\<close>

lemma insertArc_tree:
  assumes "insertArc G a s v = Inr p" and "tree_at (nodes v) par t"
    and "a \<in> set (arcs t)" and "distinct (addrs t)"
  shows "tree_at (nodes (fst p)) par
           (splitTree a (length (nodes v) + 1) (length (nodes v) + 3) (length (nodes v) + 2)
              (length (nodes v)) t)
         \<and> snd p = length (nodes v) + 2 \<and> length (nodes (fst p)) = length (nodes v) + 4
         \<and> ParabolaTree (fst p) = ParabolaTree v"
proof -
  have al: "a < length (nodes v)"
    using tree_at_addrs[OF assms(2)] assms(3) by (simp add: set_addrs)
  have nb: "a \<notin> set (breakpoints t)" using distinct_addrs_arcs[OF assms(4)] assms(3) by auto
  let ?L = "length (nodes v)"
  let ?ns' = "nodes (fst (splitArc a s v))"
  have sp: "\<And>d. splitArc a s (v\<lparr>DCEL := d\<rparr>) =
      ((fst (splitArc a s v))\<lparr>DCEL := d\<rparr>, ?L + 3, ?L + 2, ?L)"
    using al by (simp add: splitArc_result)
  have "post (insertArc G a s v) (\<lambda>p. map links (nodes (fst p)) = map links ?ns'
          \<and> snd p = ?L + 2 \<and> ParabolaTree (fst p) = ParabolaTree v)"
    unfolding insertArc_def
    by (simp add: post_simps NewVertex_def NewEdge_def sp,
        (intro postI conjI impI allI | simp add: post_simps NewVertex_def NewEdge_def sp)+)
       (simp_all add: updNode_def map_links_update splitArc_result al)
  from postD[OF this assms(1)] have
    ml: "map links (nodes (fst p)) = map links ?ns'" and sn: "snd p = ?L + 2"
    and pt: "ParabolaTree (fst p) = ParabolaTree v" by auto
  have len: "length ?ns' = ?L + 4" using al by (simp add: splitArc_result)
  have "tree_at ?ns' par (splitTree a (?L + 1) (?L + 3) (?L + 2) ?L t)"
  proof (rule tree_at_splitTree[OF assms(2) nb])
    show "length (nodes v) \<le> length ?ns'" using len by simp
    show "\<And>x. x < length (nodes v) \<Longrightarrow> x \<noteq> a \<Longrightarrow> links (?ns' ! x) = links (nodes v ! x)"
      using al by (simp add: splitArc_result nth_append)
    show "Parent (?ns' ! a) = Parent (nodes v ! a)"
      using al by (simp add: splitArc_result nth_append)
    show "\<And>p. Parent (?ns' ! a) = p \<Longrightarrow>
          tree_at ?ns' p (Breakpoint a (Breakpoint (?L + 1) (Arc (?L + 3)) (Arc (?L + 2))) (Arc ?L))"
      using al by (simp add: splitArc_result nth_append newNode_def)
  qed
  then have "tree_at (nodes (fst p)) par (splitTree a (?L + 1) (?L + 3) (?L + 2) ?L t)"
    using tree_at_links[OF ml] by simp
  moreover have "length (nodes (fst p)) = ?L + 4"
    using map_links_length[OF ml] len by simp
  ultimately show ?thesis using sn pt by simp
qed

lemma probeNewArc_links:
  assumes "probeNewArc k n v = Inr v'" shows "same_links v v'"
proof -
  have "post (probeNewArc k n v) (same_links v)"
    unfolding probeNewArc_def
    by (simp add: post_simps, (intro postI conjI impI allI | simp add: post_simps)+)
       (auto dest!: addCircleEvent_links simp: same_links_def)
  then show ?thesis using assms by (rule postD)
qed

lemma tree_at_unique:
  "tree_at ns par t \<Longrightarrow> tree_at ns par' t' \<Longrightarrow> rootOf t = rootOf t' \<Longrightarrow> t = t'"
proof (induction t arbitrary: t' par par')
  case (Arc a)
  then show ?case by (cases t') auto
next
  case (Breakpoint a l r)
  then show ?case by (cases t') auto
qed

lemma holds_tree_unique: "holds_tree v t \<Longrightarrow> holds_tree v t' \<Longrightarrow> t = t'"
  by (auto simp: holds_tree_def dest: tree_at_unique)

lemma handleSiteEvent_first:
  assumes "handleSiteEvent G k e v = Inr v'" and "ParabolaTree v = None"
  shows "holds_tree v' (Arc (length (nodes v)))"
proof -
  define Q where "Q = (\<lambda>v'. holds_tree v' (Arc (length (nodes v))))"
  have root: "Q (snd (allocNode (newNode s None) v1)\<lparr>ParabolaTree := Some (fst (allocNode (newNode s None) v1))\<rparr>)"
    if "newSiteFace s' v = Inr v1" for s s' v1
    using newSiteFace_SweepLine[OF that]
    by (simp add: Q_def holds_tree_def allocNode_def newNode_def nth_append)
  have "post (handleSiteEvent G k e v) Q"
    unfolding handleSiteEvent_def
    apply (simp add: post_simps, (intro postI conjI impI allI | simp add: post_simps)+)
    subgoal by (rule root)
    subgoal using assms(2) by (auto dest!: newSiteFace_SweepLine)
    subgoal using assms(2) by (auto dest!: newSiteFace_SweepLine)
    done
  then show ?thesis using assms(1) unfolding Q_def by (rule postD)
qed

lemma handleSiteEvent_split:
  assumes "handleSiteEvent G k e v = Inr v'" and "holds_tree v t"
  shows "\<exists>a \<in> set (arcs t).
           holds_tree v' (splitTree a (length (nodes v) + 1) (length (nodes v) + 3)
                            (length (nodes v) + 2) (length (nodes v)) t)
           \<and> length (nodes v') = length (nodes v) + 4"
proof -
  let ?L = "length (nodes v)"
  define Q where "Q = (\<lambda>v'. \<exists>a \<in> set (arcs t).
           holds_tree v' (splitTree a (?L + 1) (?L + 3) (?L + 2) ?L t)
           \<and> length (nodes v') = ?L + 4)"
  have step: "Q v'"
    if f: "newSiteFace s v = Inr v1" and fa: "findNodeAbove G k v1 s = Inr arcAbove"
      and rc: "removeCircleEvent k arcAbove v1 = Inr v2"
      and ia: "insertArc G (the arcAbove) s v2 = Inr p"
      and pr: "probeNewArc k (snd p) (fst p) = Inr v'"
    for s v1 arcAbove v2 p v'
  proof -
    note n1 = newSiteFace_SweepLine[OF f]
    from assms(2) n1 have t1: "tree_at (nodes v1) None t" "ParabolaTree v1 = Some (rootOf t)"
      and d: "distinct (addrs t)" by (simp_all add: holds_tree_def)
    from findNodeAbove_loop_arc[OF fa[unfolded findNodeAbove_def] t1(1)] t1(2)
    obtain a where a: "arcAbove = Some a" "a \<in> set (arcs t)" by auto
    from removeCircleEvent_links[OF rc] have l2: "map links (nodes v2) = map links (nodes v1)"
      "ParabolaTree v2 = ParabolaTree v1" by (simp_all add: same_links_def)
    have t2: "tree_at (nodes v2) None t" using tree_at_links[OF l2(1)] t1(1) by simp
    have len2: "length (nodes v2) = ?L" using map_links_length[OF l2(1)] n1 by simp
    from insertArc_tree[OF ia[unfolded a option.sel] t2 a(2) d] len2 l2(2) t1(2)
    have t3: "tree_at (nodes (fst p)) None (splitTree a (?L + 1) (?L + 3) (?L + 2) ?L t)"
      "length (nodes (fst p)) = ?L + 4" "ParabolaTree (fst p) = Some (rootOf t)" by simp_all
    from probeNewArc_links[OF pr] have l4: "map links (nodes v') = map links (nodes (fst p))"
      "ParabolaTree v' = ParabolaTree (fst p)" by (simp_all add: same_links_def)
    have "\<And>x. x \<in> set (addrs t) \<Longrightarrow> x < ?L"
      using tree_at_addrs[OF assms(2)[unfolded holds_tree_def, THEN conjunct2, THEN conjunct1]] .
    then have fresh: "set (addrs t) \<inter> {?L + 1, ?L + 3, ?L + 2, ?L} = {}" by fastforce
    have "distinct (addrs (splitTree a (?L + 1) (?L + 3) (?L + 2) ?L t))"
      by (rule distinct_splitTree[OF d a(2) _ fresh]) simp
    then have "holds_tree v' (splitTree a (?L + 1) (?L + 3) (?L + 2) ?L t)"
      using t3 l4 tree_at_links[OF l4(1)] by (simp add: holds_tree_def)
    moreover have "length (nodes v') = ?L + 4" using map_links_length[OF l4(1)] t3(2) by simp
    ultimately show ?thesis using a(2) unfolding Q_def by blast
  qed
  have pt: "ParabolaTree v \<noteq> None" using assms(2) by (simp add: holds_tree_def)
  have noroot: "P" if "newSiteFace s v = Inr v1" "ParabolaTree v1 = None" for s v1 P
    using newSiteFace_SweepLine[OF that(1)] that(2) pt by simp
  have nonil: "P" if f: "newSiteFace s v = Inr v1" and fa: "findNodeAbove G k v1 s = Inr None"
    for s v1 P
  proof -
    note n1 = newSiteFace_SweepLine[OF f]
    from assms(2) n1 have t1: "tree_at (nodes v1) None t" "ParabolaTree v1 = Some (rootOf t)"
      by (simp_all add: holds_tree_def)
    from findNodeAbove_loop_arc[OF fa[unfolded findNodeAbove_def] t1(1) t1(2)]
    show ?thesis by simp
  qed
  have "post (handleSiteEvent G k e v) Q"
    unfolding handleSiteEvent_def
    apply (simp add: post_simps, (intro postI conjI impI allI | simp add: post_simps)+)
    subgoal by (erule (1) noroot)
    subgoal by (erule nonil) simp
    subgoal by (rule step)
    done
  then show ?thesis using assms(1) unfolding Q_def by (rule postD)
qed

lemma siteEvents_arcs:
  "siteEvents G k es v = Inr w \<Longrightarrow> holds_tree v t \<Longrightarrow>
   \<exists>t'. holds_tree w t' \<and> length (arcs t') = length (arcs t) + 2 * length es
        \<and> length (breakpoints t') = length (breakpoints t) + 2 * length es"
proof (induction es arbitrary: v t)
  case Nil
  then show ?case by auto
next
  case (Cons e es)
  from Cons.prems(1) obtain v1 where h: "handleSiteEvent G k e v = Inr v1"
    and r: "siteEvents G k es v1 = Inr w" by (auto simp: bindE_eq_Inr)
  from handleSiteEvent_split[OF h Cons.prems(2)] obtain a where a: "a \<in> set (arcs t)"
    and t1: "holds_tree v1 (splitTree a (length (nodes v) + 1) (length (nodes v) + 3)
                            (length (nodes v) + 2) (length (nodes v)) t)" by blast
  have d: "distinct (arcs t)"
    using Cons.prems(2) distinct_addrs_arcs[of t] by (simp add: holds_tree_def)
  from Cons.IH[OF r t1] arcs_splitTree[OF a d] show ?case by auto
qed

text \<open>
  C7, as the code has it. A site event handled over a tree turns the arc above the site
  into a breakpoint and allocates one more breakpoint and three leaves: the leaf count
  and the breakpoint count both grow by two. A run of site events from the empty tree,
  with no circle event between them, ends with one leaf less than twice their number.
\<close>

theorem site_event_adds_two_arcs:
  "(handleSiteEvent G k e v = Inr v' \<and> holds_tree v t \<longrightarrow>
      (\<exists>t'. holds_tree v' t' \<and> length (arcs t') = length (arcs t) + 2
         \<and> length (breakpoints t') = length (breakpoints t) + 2
         \<and> length (nodes v') = length (nodes v) + 4))
   \<and> (siteEvents G k es v0 = Inr w \<and> ParabolaTree v0 = None \<and> es \<noteq> [] \<longrightarrow>
      (\<exists>t'. holds_tree w t' \<and> length (arcs t') + 1 = 2 * length es
         \<and> length (breakpoints t') + 2 = 2 * length es))"
proof (intro conjI impI)
  assume a: "handleSiteEvent G k e v = Inr v' \<and> holds_tree v t"
  then have d: "distinct (arcs t)" using distinct_addrs_arcs[of t] by (simp add: holds_tree_def)
  from a handleSiteEvent_split[of G k e v v' t] obtain x where x: "x \<in> set (arcs t)"
    "holds_tree v' (splitTree x (length (nodes v) + 1) (length (nodes v) + 3)
                            (length (nodes v) + 2) (length (nodes v)) t)"
    "length (nodes v') = length (nodes v) + 4" by blast
  with arcs_splitTree[OF x(1) d] show "\<exists>t'. holds_tree v' t' \<and> length (arcs t') = length (arcs t) + 2
         \<and> length (breakpoints t') = length (breakpoints t) + 2
         \<and> length (nodes v') = length (nodes v) + 4" by blast
next
  assume a: "siteEvents G k es v0 = Inr w \<and> ParabolaTree v0 = None \<and> es \<noteq> []"
  then obtain e es' where es: "es = e # es'" by (cases es) auto
  with a obtain v1 where h: "handleSiteEvent G k e v0 = Inr v1"
    and r: "siteEvents G k es' v1 = Inr w" by (auto simp: bindE_eq_Inr)
  from handleSiteEvent_first[OF h] a have "holds_tree v1 (Arc (length (nodes v0)))" by simp
  from siteEvents_arcs[OF r this] es
  show "\<exists>t'. holds_tree w t' \<and> length (arcs t') + 1 = 2 * length es
         \<and> length (breakpoints t') + 2 = 2 * length es" by auto
qed

lemma two_site_run:
  "siteEvents flat_geometry 5 [0, 1] (Reset (New two_sites ((0, 0), (10, 10))))
     = Inr (second_site_state\<lparr>EventQueue := [0, 1], SweepLine := 0,
              events := events (Reset (New two_sites ((0, 0), (10, 10))))\<rparr>)"
  by (simp add: model_defs flat_geometry_def two_sites_def second_site_state_def eval_nat_numeral
           cong: bindE_weak_cong let_weak_cong)

lemma second_site_event:
  "handleSiteEvent flat_geometry 5 1 (first_site_state\<lparr>EventQueue := [], SweepLine := 5\<rparr>)
     = Inr (second_site_state\<lparr>events := events first_site_state\<rparr>)"
  by (simp add: model_defs flat_geometry_def first_site_state_def second_site_state_def eval_nat_numeral
           cong: bindE_weak_cong let_weak_cong)

lemma holds_two_site_tree:
  "holds_tree first_site_state (Arc 0)" "holds_tree second_site_state two_site_tree"
  by (simp_all add: holds_tree_def first_site_state_def second_site_state_def two_site_tree_def
      newNode_def)

theorem site_event_adds_two_arcs_witness:
  "handleSiteEvent flat_geometry 5 1 (first_site_state\<lparr>EventQueue := [], SweepLine := 5\<rparr>)
     = Inr (second_site_state\<lparr>events := events first_site_state\<rparr>)
   \<and> holds_tree (first_site_state\<lparr>EventQueue := [], SweepLine := 5\<rparr>) (Arc 0)
   \<and> holds_tree (second_site_state\<lparr>events := events first_site_state\<rparr>) two_site_tree
   \<and> length (arcs two_site_tree) = length (arcs (Arc 0)) + 2
   \<and> length (breakpoints two_site_tree) = length (breakpoints (Arc 0)) + 2
   \<and> siteEvents flat_geometry 5 [0, 1] (Reset (New two_sites ((0, 0), (10, 10))))
       = Inr (second_site_state\<lparr>EventQueue := [0, 1], SweepLine := 0,
              events := events (Reset (New two_sites ((0, 0), (10, 10))))\<rparr>)
   \<and> ParabolaTree (Reset (New two_sites ((0, 0), (10, 10)))) = None
   \<and> length (arcs two_site_tree) + 1 = 2 * length [0 :: nat, 1]"
proof -
  have h1: "holds_tree (first_site_state\<lparr>EventQueue := [], SweepLine := 5\<rparr>) (Arc 0)"
    using holds_two_site_tree(1) by (simp add: holds_tree_def)
  have h2: "holds_tree (second_site_state\<lparr>events := events first_site_state\<rparr>) two_site_tree"
    using holds_two_site_tree(2) by (simp add: holds_tree_def)
  have p: "ParabolaTree (Reset (New two_sites ((0, 0), (10, 10)))) = None"
    by (simp add: Reset_def split_beta)
  from site_event_adds_two_arcs[of flat_geometry 5 1
      "first_site_state\<lparr>EventQueue := [], SweepLine := 5\<rparr>"
      "second_site_state\<lparr>events := events first_site_state\<rparr>" "Arc 0" "[0, 1]"
      "Reset (New two_sites ((0, 0), (10, 10)))"
      "second_site_state\<lparr>EventQueue := [0, 1], SweepLine := 0,
              events := events (Reset (New two_sites ((0, 0), (10, 10))))\<rparr>"]
    second_site_event two_site_run h1 h2 p
  show ?thesis by (simp add: two_site_tree_def)
qed

text \<open>
  C7 as stated fails: the second site event of the two-site run finds one leaf and leaves
  three, below two breakpoints, so two site events end with three leaves.
\<close>

theorem two_site_events_three_arcs:
  "advance flat_geometry 5 2 (Reset (New two_sites ((0, 0), (10, 10)))) = Inr second_site_state
   \<and> EventType (events second_site_state ! 0) = EventSite
   \<and> EventType (events second_site_state ! 1) = EventSite
   \<and> holds_tree first_site_state (Arc 0)
   \<and> holds_tree second_site_state two_site_tree
   \<and> length (arcs (Arc 0)) = 1 \<and> length (arcs two_site_tree) = 3
   \<and> length (breakpoints (Arc 0)) = 0 \<and> length (breakpoints two_site_tree) = 2"
  using first_step second_step holds_two_site_tree
  by (simp add: numeral_2_eq_2 two_site_tree_def second_site_state_def)

section \<open>\<open>PrevArc\<close> and \<open>NextArc\<close> on a tree\<close>

lemma before_notin: "x \<notin> set xs \<Longrightarrow> before x xs = None"
  by (induction x xs rule: before.induct) auto

lemma before_in_set: "before x xs = Some y \<Longrightarrow> y \<in> set xs \<and> x \<in> set xs"
  by (induction x xs rule: before.induct) (auto split: if_splits)

lemma before_first: "x \<notin> set xs \<Longrightarrow> before x (x # xs) = None"
  by (cases xs) (auto simp: before_notin)

lemma before_append_left:
  "x \<in> set xs \<Longrightarrow> x \<notin> set ys \<Longrightarrow> distinct xs \<Longrightarrow> before x (xs @ ys) = before x xs"
proof (induction x xs rule: before.induct)
  case (1 x) then show ?case by simp
next
  case (2 x y)
  then show ?case by (cases ys) (auto simp: before_notin)
next
  case (3 x y z zs)
  show ?case
  proof (cases "x = y")
    case True
    with 3 have "y \<notin> set (z # zs @ ys)" "y \<notin> set (z # zs)" by auto
    then have "before x ((y # z # zs) @ ys) = None" "before x (y # z # zs) = None"
      using before_first[of y "z # zs @ ys"] before_first[of y "z # zs"] True
        \<open>y \<notin> set (z # zs @ ys)\<close> \<open>y \<notin> set (z # zs)\<close> by simp_all
    then show ?thesis by simp
  next
    case False
    with 3 show ?thesis by auto
  qed
qed

lemma before_append_right:
  "x \<in> set ys \<Longrightarrow> x \<notin> set xs \<Longrightarrow> xs \<noteq> [] \<Longrightarrow> distinct ys \<Longrightarrow>
   before x (xs @ ys) = (case before x ys of Some y \<Rightarrow> Some y
                          | None \<Rightarrow> if hd ys = x then Some (last xs) else None)"
proof (induction x xs rule: before.induct)
  case (1 x) then show ?case by simp
next
  case (2 x y)
  then obtain y' list where ys: "ys = y' # list" by (cases ys) auto
  show ?case
  proof (cases "y' = x")
    case True
    with 2 ys have "before x ys = None" by (simp add: before_first)
    with True ys show ?thesis by simp
  next
    case False
    with ys show ?thesis by (auto split: option.splits)
  qed
next
  case (3 x y z zs)
  then show ?case by (auto split: option.splits)
qed

lemma before_head: "distinct xs \<Longrightarrow> xs \<noteq> [] \<Longrightarrow> before (hd xs) xs = None"
  by (cases xs) (auto simp: before_first)

lemma after_notin: "x \<notin> set xs \<Longrightarrow> after x xs = None"
  by (induction x xs rule: after.induct) auto

lemma after_append_right:
  "x \<in> set ys \<Longrightarrow> x \<notin> set xs \<Longrightarrow> after x (xs @ ys) = after x ys"
proof (induction xs)
  case Nil then show ?case by simp
next
  case (Cons a xs)
  then show ?case by (cases "xs @ ys") auto
qed

lemma after_append_left:
  "x \<in> set xs \<Longrightarrow> x \<notin> set ys \<Longrightarrow> ys \<noteq> [] \<Longrightarrow>
   after x (xs @ ys) = (case after x xs of Some y \<Rightarrow> Some y
                          | None \<Rightarrow> if last xs = x then Some (hd ys) else None)"
proof (induction x xs rule: after.induct)
  case (1 x) then show ?case by simp
next
  case (2 x y)
  then show ?case by (cases ys) auto
next
  case (3 x y z zs)
  then show ?case by (auto split: option.splits)
qed

lemma arcs_nonempty [simp]: "arcs t \<noteq> []"
  by (induction t) auto

lemma hd_arcs: "hd (arcs t) = leftmost t"
  by (induction t) auto

lemma last_arcs: "last (arcs t) = rightmost t"
  by (induction t) auto

lemma LastArc_tree:
  "LastArc k ns (Some (rootOf u)) = Inr res \<Longrightarrow> tree_at ns par u \<Longrightarrow> res = Some (rightmost u)"
proof (induction k arbitrary: u par)
  case 0 then show ?case by simp
next
  case (Suc k)
  show ?case
  proof (cases u)
    case (Arc a)
    with Suc.prems show ?thesis by (simp add: IsLeaf_def getNode_def)
  next
    case (Breakpoint b x y)
    with Suc.prems have "LastArc k ns (Some (rootOf y)) = Inr res" and "tree_at ns (Some b) y"
      by (auto simp: IsLeaf_def getNode_def)
    from Suc.IH[OF this] Breakpoint show ?thesis by simp
  qed
qed

lemma FirstArc_tree:
  "FirstArc k ns (Some (rootOf u)) = Inr res \<Longrightarrow> tree_at ns par u \<Longrightarrow> res = Some (leftmost u)"
proof (induction k arbitrary: u par)
  case 0 then show ?case by simp
next
  case (Suc k)
  show ?case
  proof (cases u)
    case (Arc a)
    with Suc.prems show ?thesis by (simp add: IsLeaf_def getNode_def)
  next
    case (Breakpoint b x y)
    with Suc.prems have "FirstArc k ns (Some (rootOf x)) = Inr res" and "tree_at ns (Some b) x"
      by (auto simp: IsLeaf_def getNode_def)
    from Suc.IH[OF this] Breakpoint show ?thesis by simp
  qed
qed

lemma before_None_hd: "x \<in> set xs \<Longrightarrow> before x xs = None \<Longrightarrow> hd xs = x"
  by (induction x xs rule: before.induct) (auto split: if_splits)

lemma after_None_last: "x \<in> set xs \<Longrightarrow> after x xs = None \<Longrightarrow> last xs = x"
  by (induction x xs rule: after.induct) (auto split: if_splits)

lemma tree_at_arc:
  "tree_at ns par t \<Longrightarrow> x \<in> set (arcs t) \<Longrightarrow>
   x < length ns \<and> Left (ns ! x) = None \<and> Right (ns ! x) = None"
  by (induction t arbitrary: par) auto

lemma set_arcs_addrs: "set (arcs t) \<subseteq> set (addrs t)"
  by (induction t) auto

lemma rootOf_in_addrs: "rootOf t \<in> set (addrs t)"
  by (cases t) auto

lemma tree_at_leaf_root:
  "tree_at ns par t \<Longrightarrow> Left (ns ! rootOf t) = None \<Longrightarrow> t = Arc (rootOf t)"
  by (cases t) auto

text \<open>
  The climb of \<open>PrevArc\<close> from an arc of a subtree: it answers the arc before, or, from
  the first arc, it leaves the subtree at its root.
\<close>

lemma PrevArc_loop_before:
  assumes "tree_at ns par t" and "distinct (addrs t)" and "x \<in> set (arcs t)"
    and "(case Parent (ns ! x) of None \<Rightarrow> Inr None | Some p \<Rightarrow> PrevArc_loop k ns p x) = Inr res"
  shows "case before x (arcs t) of
           Some y \<Rightarrow> res = Some y
         | None \<Rightarrow> \<exists>k'. (case par of None \<Rightarrow> Inr None
                          | Some p \<Rightarrow> PrevArc_loop k' ns p (rootOf t)) = Inr res"
  using assms
proof (induction t arbitrary: par)
  case (Arc a)
  then show ?case by (auto cong: option.case_cong)
next
  case (Breakpoint b l r)
  from Breakpoint.prems(1) have b: "b < length ns" "Left (ns ! b) = Some (rootOf l)"
    "Right (ns ! b) = Some (rootOf r)" "Parent (ns ! b) = par"
    and tl: "tree_at ns (Some b) l" and tr: "tree_at ns (Some b) r" by auto
  from Breakpoint.prems(2) have dl: "distinct (addrs l)" and dr: "distinct (addrs r)"
    and disj: "set (addrs l) \<inter> set (addrs r) = {}" by auto
  have dal: "distinct (arcs l)" and dar: "distinct (arcs r)"
    using distinct_addrs_arcs[OF dl] distinct_addrs_arcs[OF dr] by auto
  have adisj: "set (arcs l) \<inter> set (arcs r) = {}"
    using disj set_arcs_addrs[of l] set_arcs_addrs[of r] by auto
  have rne: "rootOf l \<noteq> rootOf r"
    using disj rootOf_in_addrs[of l] rootOf_in_addrs[of r] by auto
  show ?case
  proof (cases "x \<in> set (arcs l)")
    case True
    then have xr: "x \<notin> set (arcs r)" using adisj by auto
    have bf: "before x (arcs (Breakpoint b l r)) = before x (arcs l)"
      using before_append_left[OF True xr dal] by simp
    note ih = Breakpoint.IH(1)[OF tl dl True Breakpoint.prems(4)]
    show ?thesis
    proof (cases "before x (arcs l)")
      case (Some y)
      with ih bf show ?thesis by simp
    next
      case None
      with ih obtain k' where k': "PrevArc_loop k' ns b (rootOf l) = Inr res" by auto
      then obtain k'' where "k' = Suc k''" by (cases k') auto
      with k' b have "(case par of None \<Rightarrow> Inr None | Some pp \<Rightarrow> PrevArc_loop k'' ns pp b) = Inr res"
        by (simp add: getNode_def)
      with None bf show ?thesis by (auto cong: option.case_cong)
    qed
  next
    case False
    with Breakpoint.prems(3) have xr: "x \<in> set (arcs r)" by auto
    note ih = Breakpoint.IH(2)[OF tr dr xr Breakpoint.prems(4)]
    have bf: "before x (arcs (Breakpoint b l r)) =
        (case before x (arcs r) of Some y \<Rightarrow> Some y
         | None \<Rightarrow> if hd (arcs r) = x then Some (last (arcs l)) else None)"
      using before_append_right[where xs = "arcs l", OF xr False _ dar] by simp
    show ?thesis
    proof (cases "before x (arcs r)")
      case (Some y)
      with ih bf show ?thesis by simp
    next
      case None
      with ih obtain k' where k': "PrevArc_loop k' ns b (rootOf r) = Inr res" by auto
      then obtain k'' where k'': "k' = Suc k''" by (cases k') auto
      have lr: "rootOf l < length ns" using tree_at_root[OF tl] by simp
      from k' k'' b rne lr have tail:
        "(if Left (ns ! rootOf l) = None \<and> Right (ns ! rootOf l) = None
          then Inr (Some (rootOf l)) else LastArc k'' ns (Some (rootOf l))) = Inr res"
        by (simp add: getNode_def IsLeaf_def cong: if_cong)
      have "res = Some (rightmost l)"
      proof (cases "Left (ns ! rootOf l) = None \<and> Right (ns ! rootOf l) = None")
        case True
        with tree_at_leaf_root[OF tl] have "l = Arc (rootOf l)" by simp
        then have "rightmost l = rootOf l" by (metis rightmost.simps(1))
        with tail True show ?thesis by simp
      next
        case False
        with tail have "LastArc k'' ns (Some (rootOf l)) = Inr res" by (simp split: if_splits)
        from LastArc_tree[OF this tl] show ?thesis .
      qed
      moreover have "hd (arcs r) = x" using before_None_hd[OF xr None] .
      ultimately show ?thesis using bf None by (simp add: last_arcs)
    qed
  qed
qed

lemma NextArc_loop_after:
  assumes "tree_at ns par t" and "distinct (addrs t)" and "x \<in> set (arcs t)"
    and "(case Parent (ns ! x) of None \<Rightarrow> Inr None | Some p \<Rightarrow> NextArc_loop k ns p x) = Inr res"
  shows "case after x (arcs t) of
           Some y \<Rightarrow> res = Some y
         | None \<Rightarrow> \<exists>k'. (case par of None \<Rightarrow> Inr None
                          | Some p \<Rightarrow> NextArc_loop k' ns p (rootOf t)) = Inr res"
  using assms
proof (induction t arbitrary: par)
  case (Arc a)
  then show ?case by (auto cong: option.case_cong)
next
  case (Breakpoint b l r)
  from Breakpoint.prems(1) have b: "b < length ns" "Left (ns ! b) = Some (rootOf l)"
    "Right (ns ! b) = Some (rootOf r)" "Parent (ns ! b) = par"
    and tl: "tree_at ns (Some b) l" and tr: "tree_at ns (Some b) r" by auto
  from Breakpoint.prems(2) have dl: "distinct (addrs l)" and dr: "distinct (addrs r)"
    and disj: "set (addrs l) \<inter> set (addrs r) = {}" by auto
  have adisj: "set (arcs l) \<inter> set (arcs r) = {}"
    using disj set_arcs_addrs[of l] set_arcs_addrs[of r] by auto
  have rne: "rootOf r \<noteq> rootOf l"
    using disj rootOf_in_addrs[of l] rootOf_in_addrs[of r] by auto
  show ?case
  proof (cases "x \<in> set (arcs r)")
    case True
    then have xl: "x \<notin> set (arcs l)" using adisj by auto
    have af: "after x (arcs (Breakpoint b l r)) = after x (arcs r)"
      using after_append_right[OF True xl] by simp
    note ih = Breakpoint.IH(2)[OF tr dr True Breakpoint.prems(4)]
    show ?thesis
    proof (cases "after x (arcs r)")
      case (Some y)
      with ih af show ?thesis by simp
    next
      case None
      with ih obtain k' where k': "NextArc_loop k' ns b (rootOf r) = Inr res" by auto
      then obtain k'' where "k' = Suc k''" by (cases k') auto
      with k' b have "(case par of None \<Rightarrow> Inr None | Some pp \<Rightarrow> NextArc_loop k'' ns pp b) = Inr res"
        by (simp add: getNode_def)
      with None af show ?thesis by (auto cong: option.case_cong)
    qed
  next
    case False
    with Breakpoint.prems(3) have xl: "x \<in> set (arcs l)" by auto
    note ih = Breakpoint.IH(1)[OF tl dl xl Breakpoint.prems(4)]
    have af: "after x (arcs (Breakpoint b l r)) =
        (case after x (arcs l) of Some y \<Rightarrow> Some y
         | None \<Rightarrow> if last (arcs l) = x then Some (hd (arcs r)) else None)"
      using after_append_left[where ys = "arcs r", OF xl False] by simp
    show ?thesis
    proof (cases "after x (arcs l)")
      case (Some y)
      with ih af show ?thesis by simp
    next
      case None
      with ih obtain k' where k': "NextArc_loop k' ns b (rootOf l) = Inr res" by auto
      then obtain k'' where k'': "k' = Suc k''" by (cases k') auto
      have lr: "rootOf r < length ns" using tree_at_root[OF tr] by simp
      from k' k'' b rne lr have tail:
        "(if Left (ns ! rootOf r) = None \<and> Right (ns ! rootOf r) = None
          then Inr (Some (rootOf r)) else FirstArc k'' ns (Some (rootOf r))) = Inr res"
        by (simp add: getNode_def IsLeaf_def cong: if_cong)
      have "res = Some (leftmost r)"
      proof (cases "Left (ns ! rootOf r) = None \<and> Right (ns ! rootOf r) = None")
        case True
        with tree_at_leaf_root[OF tr] have "r = Arc (rootOf r)" by simp
        then have "leftmost r = rootOf r" by (metis leftmost.simps(1))
        with tail True show ?thesis by simp
      next
        case False
        with tail have "FirstArc k'' ns (Some (rootOf r)) = Inr res" by (simp split: if_splits)
        from FirstArc_tree[OF this tr] show ?thesis .
      qed
      moreover have "last (arcs l) = x" using after_None_last[OF xl None] .
      ultimately show ?thesis using af None by (simp add: hd_arcs)
    qed
  qed
qed

text \<open>On the tree of a state, \<open>PrevArc\<close> and \<open>NextArc\<close> of an arc answer its neighbours.\<close>

lemma PrevArc_before:
  assumes "tree_at ns None t" and "distinct (addrs t)" and "x \<in> set (arcs t)"
    and "PrevArc k ns (Some x) = Inr res"
  shows "res = before x (arcs t)"
proof -
  from tree_at_arc[OF assms(1,3)] assms(4) have
    "(case Parent (ns ! x) of None \<Rightarrow> Inr None | Some p \<Rightarrow> PrevArc_loop k ns p x) = Inr res"
    by (simp add: PrevArc_def IsLeaf_def getNode_def)
  from PrevArc_loop_before[OF assms(1,2,3) this] show ?thesis
    by (cases "before x (arcs t)") auto
qed

lemma NextArc_after:
  assumes "tree_at ns None t" and "distinct (addrs t)" and "x \<in> set (arcs t)"
    and "NextArc k ns (Some x) = Inr res"
  shows "res = after x (arcs t)"
proof -
  from tree_at_arc[OF assms(1,3)] assms(4) have
    "(case Parent (ns ! x) of None \<Rightarrow> Inr None | Some p \<Rightarrow> NextArc_loop k ns p x) = Inr res"
    by (simp add: NextArc_def IsLeaf_def getNode_def)
  from NextArc_loop_after[OF assms(1,2,3) this] show ?thesis
    by (cases "after x (arcs t)") auto
qed

section \<open>The copies of a split arc\<close>

lemma handleSiteEvent_phases:
  assumes "handleSiteEvent G k e v = Inr v'" and "holds_tree v t"
  shows "\<exists>s v1 a v2 p. newSiteFace s v = Inr v1 \<and> findNodeAbove G k v1 s = Inr (Some a)
           \<and> a \<in> set (arcs t) \<and> removeCircleEvent k (Some a) v1 = Inr v2
           \<and> insertArc G a s v2 = Inr p \<and> probeNewArc k (snd p) (fst p) = Inr v'"
proof -
  define Q where "Q = (\<lambda>v'. \<exists>s v1 a v2 p. newSiteFace s v = Inr v1
           \<and> findNodeAbove G k v1 s = Inr (Some a)
           \<and> a \<in> set (arcs t) \<and> removeCircleEvent k (Some a) v1 = Inr v2
           \<and> insertArc G a s v2 = Inr p \<and> probeNewArc k (snd p) (fst p) = Inr v')"
  have pt: "ParabolaTree v \<noteq> None" using assms(2) by (simp add: holds_tree_def)
  have arc: "\<exists>a. arcAbove = Some a \<and> a \<in> set (arcs t)"
    if f: "newSiteFace s v = Inr v1" and fa: "findNodeAbove G k v1 s = Inr arcAbove"
    for s v1 arcAbove
  proof -
    note n1 = newSiteFace_SweepLine[OF f]
    from assms(2) n1 have t1: "tree_at (nodes v1) None t" "ParabolaTree v1 = Some (rootOf t)"
      by (simp_all add: holds_tree_def)
    from findNodeAbove_loop_arc[OF fa[unfolded findNodeAbove_def] t1(1) t1(2)]
    show ?thesis .
  qed
  have step: "Q v'"
    if f: "newSiteFace s v = Inr v1" and fa: "findNodeAbove G k v1 s = Inr arcAbove"
      and rc: "removeCircleEvent k arcAbove v1 = Inr v2"
      and ia: "insertArc G (the arcAbove) s v2 = Inr p"
      and pr: "probeNewArc k (snd p) (fst p) = Inr v'"
    for s v1 arcAbove v2 p v'
  proof -
    from arc[OF f fa] obtain a where a: "arcAbove = Some a" "a \<in> set (arcs t)" by blast
    with f fa rc ia pr show ?thesis unfolding Q_def
      by (cases p) (simp, blast)
  qed
  have noroot: "P" if "newSiteFace s v = Inr v1" "ParabolaTree v1 = None" for s v1 P
    using newSiteFace_SweepLine[OF that(1)] that(2) pt by simp
  have nonil: "P" if f: "newSiteFace s v = Inr v1" and fa: "findNodeAbove G k v1 s = Inr None"
    for s v1 P
    using arc[OF f fa] by simp
  have "post (handleSiteEvent G k e v) Q"
    unfolding handleSiteEvent_def
    apply (simp add: post_simps, (intro postI conjI impI allI | simp add: post_simps)+)
    subgoal by (erule (1) noroot)
    subgoal by (erule nonil) simp
    subgoal by (rule step)
    done
  then show ?thesis using assms(1) unfolding Q_def by (rule postD)
qed

lemma removeCircleEvent_loop_nodes:
  "removeCircleEvent_loop es v = Inr v' \<Longrightarrow> nodes v' = nodes v"
proof (induction es arbitrary: v)
  case Nil then show ?case by simp
next
  case (Cons e es)
  then show ?case by (auto simp: bindE_eq_Inr split: if_splits dest!: Cons.IH)
qed

lemma modNode_nodes:
  "modNode p f v = Inr v' \<Longrightarrow>
   \<exists>a. p = Some a \<and> a < length (nodes v) \<and> nodes v' = (nodes v)[a := f (nodes v ! a)]"
  by (auto simp: modNode_def bindE_eq_Inr getNode_def updNode_def split: option.splits if_splits)

lemma before_mid:
  "distinct (xs @ x # ys) \<Longrightarrow>
   before x (xs @ x # ys) = (if xs = [] then None else Some (last xs))"
proof (induction xs)
  case Nil
  then show ?case by (simp add: before_first)
next
  case (Cons y xs)
  then show ?case by (cases xs) auto
qed

lemma after_mid:
  "distinct (xs @ x # ys) \<Longrightarrow>
   after x (xs @ x # ys) = (if ys = [] then None else Some (hd ys))"
proof (induction xs)
  case Nil
  then show ?case by (cases ys) auto
next
  case (Cons y xs)
  then show ?case by (cases xs) auto
qed

lemma before_self: "distinct xs \<Longrightarrow> before x xs \<noteq> Some x"
  by (induction x xs rule: before.induct) (auto dest: before_in_set)

lemma after_self: "distinct xs \<Longrightarrow> after x xs \<noteq> Some x"
  by (induction x xs rule: after.induct) auto

lemma arcs_splitTree_list:
  "a \<in> set (arcs u) \<Longrightarrow> distinct (arcs u) \<Longrightarrow>
   \<exists>pre suf. arcs u = pre @ a # suf \<and> arcs (splitTree a m l n r u) = pre @ l # n # r # suf"
proof (induction u)
  case (Arc b)
  then show ?case by auto
next
  case (Breakpoint b x y)
  show ?case
  proof (cases "a \<in> set (arcs x)")
    case True
    with Breakpoint.prems have ny: "a \<notin> set (arcs y)" by auto
    from Breakpoint.IH(1)[OF True] Breakpoint.prems obtain pre suf where
      "arcs x = pre @ a # suf" "arcs (splitTree a m l n r x) = pre @ l # n # r # suf" by auto
    then have "arcs (Breakpoint b x y) = pre @ a # (suf @ arcs y)"
      "arcs (splitTree a m l n r (Breakpoint b x y)) = pre @ l # n # r # (suf @ arcs y)"
      using ny by (simp_all add: splitTree_absent)
    then show ?thesis by blast
  next
    case False
    with Breakpoint.prems have iy: "a \<in> set (arcs y)" by auto
    from Breakpoint.IH(2)[OF iy] Breakpoint.prems obtain pre suf where
      "arcs y = pre @ a # suf" "arcs (splitTree a m l n r y) = pre @ l # n # r # suf" by auto
    then have "arcs (Breakpoint b x y) = (arcs x @ pre) @ a # suf"
      "arcs (splitTree a m l n r (Breakpoint b x y)) = (arcs x @ pre) @ l # n # r # suf"
      using False by (simp_all add: splitTree_absent)
    then show ?thesis by blast
  qed
qed

lemma modNode_nth:
  "modNode p f v = Inr v' \<Longrightarrow>
   nodes v' ! x = (if p = Some x then f (nodes v ! x) else nodes v ! x)"
  by (auto dest!: modNode_nodes simp: nth_list_update split: if_splits)

text \<open>
  \<open>removeCircleEvent\<close> of an arc of the tree empties lists of the neighbours; of the arc
  itself it changes \<open>MiddleEvents\<close> only.
\<close>

lemma removeCircleEvent_arc:
  assumes rc: "removeCircleEvent k (Some a) v = Inr v'"
    and t: "tree_at (nodes v) None t" and d: "distinct (addrs t)" and a: "a \<in> set (arcs t)"
  shows "LeftEvents (nodes v' ! a) = LeftEvents (nodes v ! a)
       \<and> RightEvents (nodes v' ! a) = RightEvents (nodes v ! a)
       \<and> LeftEdges (nodes v' ! a) = LeftEdges (nodes v ! a)
       \<and> RightEdges (nodes v' ! a) = RightEdges (nodes v ! a)
       \<and> Site (nodes v' ! a) = Site (nodes v ! a)"
proof (cases "length (MiddleEvents (nodes v ! a)) > 0")
  case False
  have al: "a < length (nodes v)" using tree_at_arc[OF t a] by simp
  with rc False have "v' = v" by (simp add: removeCircleEvent_def getNode_def)
  then show ?thesis by simp
next
  case True
  have al: "a < length (nodes v)" using tree_at_arc[OF t a] by simp
  have da: "distinct (arcs t)" using distinct_addrs_arcs[OF d] by simp
  from rc True al obtain v1 v2 prevArc v3 nextArc where
    l: "removeCircleEvent_loop (MiddleEvents (nodes v ! a)) v = Inr v1"
    and m: "modNode (Some a) (\<lambda>x. x\<lparr>MiddleEvents := []\<rparr>) v1 = Inr v2"
    and p: "PrevArc k (nodes v2) (Some a) = Inr prevArc"
    and pm: "(if prevArc \<noteq> None then modNode prevArc (\<lambda>x. x\<lparr>RightEvents := []\<rparr>) v2 else Inr v2) = Inr v3"
    and n: "NextArc k (nodes v3) (Some a) = Inr nextArc"
    and nm: "(if nextArc \<noteq> None then modNode nextArc (\<lambda>x. x\<lparr>LeftEvents := []\<rparr>) v3 else Inr v3) = Inr v'"
    by (auto simp: removeCircleEvent_def getNode_def bindE_eq_Inr)
  have n1: "nodes v1 = nodes v" using removeCircleEvent_loop_nodes[OF l] .
  from modNode_nodes[OF m] n1 have n2: "nodes v2 = (nodes v)[a := (nodes v ! a)\<lparr>MiddleEvents := []\<rparr>]"
    by auto
  have l2: "map links (nodes v2) = map links (nodes v)"
    by (simp add: n2 map_links_update)
  have t2: "tree_at (nodes v2) None t" using tree_at_links[OF l2] t by simp
  from PrevArc_before[OF t2 d a p] have pa: "prevArc \<noteq> Some a"
    using before_self[OF da, of a] by simp
  have n3: "nodes v3 ! a = nodes v2 ! a" and l3: "map links (nodes v3) = map links (nodes v2)"
  proof -
    show "nodes v3 ! a = nodes v2 ! a"
      using pm pa by (auto split: if_splits dest!: modNode_nodes)
    show "map links (nodes v3) = map links (nodes v2)"
      using pm by (auto split: if_splits dest!: modNode_nodes simp: map_links_update)
  qed
  have t3: "tree_at (nodes v3) None t" using tree_at_links[OF l3] t2 by simp
  from NextArc_after[OF t3 d a n] have na: "nextArc \<noteq> Some a"
    using after_self[OF da, of a] by simp
  have n4: "nodes v' ! a = nodes v3 ! a"
    using nm na by (auto split: if_splits dest!: modNode_nodes)
  show ?thesis using n4 n3 n2 al by simp
qed

text \<open>The two copies as \<open>insertArc\<close> leaves them.\<close>

lemma insertArc_copies:
  assumes "insertArc G a s v = Inr p" and al: "a < length (nodes v)"
  shows "Site (nodes (fst p) ! (length (nodes v) + 3)) = Site (nodes v ! a)
       \<and> LeftEdges (nodes (fst p) ! (length (nodes v) + 3)) = LeftEdges (nodes v ! a)
       \<and> RightEvents (nodes (fst p) ! (length (nodes v) + 3)) = RightEvents (nodes v ! a)
       \<and> LeftEvents (nodes (fst p) ! (length (nodes v) + 3)) = []
       \<and> Site (nodes (fst p) ! length (nodes v)) = Site (nodes v ! a)
       \<and> RightEdges (nodes (fst p) ! length (nodes v)) = RightEdges (nodes v ! a)
       \<and> LeftEvents (nodes (fst p) ! length (nodes v)) = LeftEvents (nodes v ! a)
       \<and> RightEvents (nodes (fst p) ! length (nodes v)) = []"
proof -
  let ?L = "length (nodes v)"
  define Q where "Q = (\<lambda>p :: voronoi \<times> nat. Site (nodes (fst p) ! (?L + 3)) = Site (nodes v ! a)
       \<and> LeftEdges (nodes (fst p) ! (?L + 3)) = LeftEdges (nodes v ! a)
       \<and> RightEvents (nodes (fst p) ! (?L + 3)) = RightEvents (nodes v ! a)
       \<and> LeftEvents (nodes (fst p) ! (?L + 3)) = []
       \<and> Site (nodes (fst p) ! ?L) = Site (nodes v ! a)
       \<and> RightEdges (nodes (fst p) ! ?L) = RightEdges (nodes v ! a)
       \<and> LeftEvents (nodes (fst p) ! ?L) = LeftEvents (nodes v ! a)
       \<and> RightEvents (nodes (fst p) ! ?L) = [])"
  have sp: "\<And>d. splitArc a s (v\<lparr>DCEL := d\<rparr>) =
      ((fst (splitArc a s v))\<lparr>DCEL := d\<rparr>, ?L + 3, ?L + 2, ?L)"
    using al by (simp add: splitArc_result)
  have "post (insertArc G a s v) Q"
    unfolding insertArc_def
    by (simp add: post_simps NewVertex_def NewEdge_def sp,
        (intro postI conjI impI allI | simp add: post_simps NewVertex_def NewEdge_def sp)+)
       (simp_all add: Q_def updNode_def splitArc_result al nth_append newNode_def)
  from postD[OF this assms(1)] show ?thesis unfolding Q_def .
qed

text \<open>
  \<open>addCircleEvent\<close> appends to \<open>LeftEvents\<close> of its first arc and to \<open>RightEvents\<close> of its
  third arc only; it leaves the edges and the site of every node.
\<close>

lemma addCircleEvent_lists:
  assumes "addCircleEvent a1 a2 a3 v = Inr v'"
  shows "(a1 \<noteq> Some x \<longrightarrow> LeftEvents (nodes v' ! x) = LeftEvents (nodes v ! x))
       \<and> (a3 \<noteq> Some x \<longrightarrow> RightEvents (nodes v' ! x) = RightEvents (nodes v ! x))
       \<and> LeftEdges (nodes v' ! x) = LeftEdges (nodes v ! x)
       \<and> RightEdges (nodes v' ! x) = RightEdges (nodes v ! x)
       \<and> Site (nodes v' ! x) = Site (nodes v ! x)"
proof -
  define Q where "Q = (\<lambda>v' :: voronoi.
         (a1 \<noteq> Some x \<longrightarrow> LeftEvents (nodes v' ! x) = LeftEvents (nodes v ! x))
       \<and> (a3 \<noteq> Some x \<longrightarrow> RightEvents (nodes v' ! x) = RightEvents (nodes v ! x))
       \<and> LeftEdges (nodes v' ! x) = LeftEdges (nodes v ! x)
       \<and> RightEdges (nodes v' ! x) = RightEdges (nodes v ! x)
       \<and> Site (nodes v' ! x) = Site (nodes v ! x))"
  have same: "Q v" by (simp add: Q_def)
  have three: "Q (updEvent e g v5)"
    if "modNode a1 (\<lambda>nd. nd\<lparr>LeftEvents := LeftEvents nd @ [e]\<rparr>) (EventQueue_Push e (v\<lparr>events := es\<rparr>)) = Inr v3"
      and "modNode a2 (\<lambda>nd. nd\<lparr>MiddleEvents := MiddleEvents nd @ [e]\<rparr>) v3 = Inr v4"
      and "modNode a3 (\<lambda>nd. nd\<lparr>RightEvents := RightEvents nd @ [e]\<rparr>) v4 = Inr v5"
    for e g es v3 v4 v5
    using modNode_nth[OF that(1), of x] modNode_nth[OF that(2), of x] modNode_nth[OF that(3), of x]
    by (simp add: Q_def updEvent_def EventQueue_Push_def)
  have "post (addCircleEvent a1 a2 a3 v) Q"
    unfolding addCircleEvent_def AddLeftEvent_def AddMiddleEvent_def AddRightEvent_def
    apply (simp add: post_simps, (intro postI conjI impI allI | simp add: post_simps)+)
    apply (rule same | erule (2) three)+
    done
  then show ?thesis using assms unfolding Q_def by (rule postD)
qed

text \<open>
  The two triples probed around the new arc have the copies in the middle: neither copy
  is the first arc or the third arc of a new circle event.
\<close>

lemma probeNewArc_copies:
  assumes pr: "probeNewArc k n v = Inr v'" and t: "tree_at (nodes v) None u"
    and d: "distinct (addrs u)" and ar: "arcs u = pre @ l # n # r # suf"
    and x: "x = l \<or> x = r"
  shows "LeftEvents (nodes v' ! x) = LeftEvents (nodes v ! x)
       \<and> RightEvents (nodes v' ! x) = RightEvents (nodes v ! x)
       \<and> LeftEdges (nodes v' ! x) = LeftEdges (nodes v ! x)
       \<and> RightEdges (nodes v' ! x) = RightEdges (nodes v ! x)
       \<and> Site (nodes v' ! x) = Site (nodes v ! x)"
proof -
  from pr obtain prevArc prevPrev v9 nextArc nextNext where
    p1: "PrevArc k (nodes v) (Some n) = Inr prevArc"
    and p2: "PrevArc k (nodes v) prevArc = Inr prevPrev"
    and c1: "addCircleEvent prevPrev prevArc (Some n) v = Inr v9"
    and n1: "NextArc k (nodes v9) (Some n) = Inr nextArc"
    and n2: "NextArc k (nodes v9) nextArc = Inr nextNext"
    and c2: "addCircleEvent (Some n) nextArc nextNext v9 = Inr v'"
    by (auto simp: probeNewArc_def bindE_eq_Inr)
  have da: "distinct (pre @ l # n # r # suf)" using distinct_addrs_arcs[OF d] ar by simp
  have in_n: "n \<in> set (arcs u)" and in_l: "l \<in> set (arcs u)" and in_r: "r \<in> set (arcs u)"
    using ar by simp_all
  have "before n ((pre @ [l]) @ n # r # suf) = Some l"
    using da by (subst before_mid) simp_all
  with PrevArc_before[OF t d in_n p1] ar have pa: "prevArc = Some l" by simp
  have "before l (pre @ l # n # r # suf) = (if pre = [] then None else Some (last pre))"
    using da by (rule before_mid)
  with PrevArc_before[OF t d in_l p2[unfolded pa]] ar
  have pp: "prevPrev = (if pre = [] then None else Some (last pre))" by simp
  have ppx: "prevPrev \<noteq> Some x"
  proof (cases "pre = []")
    case True with pp show ?thesis by simp
  next
    case False
    then have "last pre \<in> set pre" by simp
    with da x have "last pre \<noteq> x" by auto
    with pp False show ?thesis by simp
  qed
  from addCircleEvent_links[OF c1] have l9: "map links (nodes v9) = map links (nodes v)"
    by (simp add: same_links_def)
  have t9: "tree_at (nodes v9) None u" using tree_at_links[OF l9] t by simp
  have "after n ((pre @ [l]) @ n # r # suf) = Some r"
    using da by (subst after_mid) simp_all
  with NextArc_after[OF t9 d in_n n1] ar have na: "nextArc = Some r" by simp
  have "after r ((pre @ [l, n]) @ r # suf) = (if suf = [] then None else Some (hd suf))"
    using da by (subst after_mid) simp_all
  with NextArc_after[OF t9 d in_r n2[unfolded na]] ar
  have nn: "nextNext = (if suf = [] then None else Some (hd suf))" by simp
  have nnx: "nextNext \<noteq> Some x"
  proof (cases "suf = []")
    case True with nn show ?thesis by simp
  next
    case False
    then have "hd suf \<in> set suf" by simp
    with da x have "hd suf \<noteq> x" by auto
    with nn False show ?thesis by simp
  qed
  have nx: "Some n \<noteq> Some x" using da x by auto
  from addCircleEvent_lists[OF c1, of x] addCircleEvent_lists[OF c2, of x] ppx nnx nx
  show ?thesis by simp
qed

lemma calcCircle_fourth_site:
  "calcCircle \<lparr>X = - 3, Y = 7, ID = i1, Face = f1\<rparr> \<lparr>X = 0, Y = 5, ID = i2, Face = f2\<rparr>
      \<lparr>X = 1, Y = 2, ID = i3, Face = f3\<rparr> = Inl Clockwise"
  by (simp add: calcCircle_def Let_def)

lemma registered_step:
  "HandleNextEvent flat_geometry 5 registered_state = Inr registered_state_after"
  by (simp add: model_defs flat_geometry_def registered_state_def registered_state_after_def
           calcCircle_fourth_site eval_nat_numeral cong: bindE_weak_cong let_weak_cong)

lemma registered_site_event:
  "handleSiteEvent flat_geometry 5 1 registered_state
     = Inr (registered_state_after\<lparr>EventQueue := [0, 1], SweepLine := 5,
              events := events registered_state\<rparr>)"
  by (simp add: model_defs flat_geometry_def registered_state_def registered_state_after_def
           calcCircle_fourth_site eval_nat_numeral cong: bindE_weak_cong let_weak_cong)

lemma holds_registered:
  "holds_tree registered_state three_arcs"
  "holds_tree (registered_state_after\<lparr>EventQueue := [0, 1], SweepLine := 5,
              events := events registered_state\<rparr>) (splitTree 2 6 8 7 5 three_arcs)"
  by (simp_all add: holds_tree_def registered_state_def registered_state_after_def three_arcs_def
      newNode_def)

section \<open>What the copies of a split arc inherit\<close>

text \<open>
  C3, as the code has it. A site event handled over a tree splits an arc \<open>a\<close> of the
  tree: \<open>a\<close> becomes a breakpoint over a new breakpoint and the right copy, the new
  breakpoint stands over the left copy and the new arc. Both copies are arcs of the site
  of \<open>a\<close>. The left copy has the left-incident edges of \<open>a\<close> and its \<open>RightEvents\<close>, and
  no \<open>LeftEvents\<close>; the right copy has the right-incident edges of \<open>a\<close> and its
  \<open>LeftEvents\<close>, and no \<open>RightEvents\<close>. With \<open>L\<close> the number of nodes before the event,
  the right copy is node \<open>L\<close>, the new breakpoint \<open>L + 1\<close>, the new arc \<open>L + 2\<close> and the
  left copy \<open>L + 3\<close>.
\<close>

theorem split_copies_inherit:
  assumes "handleSiteEvent G k e v = Inr v'" and "holds_tree v t"
  shows "\<exists>a \<in> set (arcs t).
           holds_tree v' (splitTree a (length (nodes v) + 1) (length (nodes v) + 3)
                            (length (nodes v) + 2) (length (nodes v)) t)
         \<and> Site (nodes v' ! (length (nodes v) + 3)) = Site (nodes v ! a)
         \<and> LeftEdges (nodes v' ! (length (nodes v) + 3)) = LeftEdges (nodes v ! a)
         \<and> RightEvents (nodes v' ! (length (nodes v) + 3)) = RightEvents (nodes v ! a)
         \<and> LeftEvents (nodes v' ! (length (nodes v) + 3)) = []
         \<and> Site (nodes v' ! length (nodes v)) = Site (nodes v ! a)
         \<and> RightEdges (nodes v' ! length (nodes v)) = RightEdges (nodes v ! a)
         \<and> LeftEvents (nodes v' ! length (nodes v)) = LeftEvents (nodes v ! a)
         \<and> RightEvents (nodes v' ! length (nodes v)) = []"
proof -
  let ?L = "length (nodes v)"
  from handleSiteEvent_phases[OF assms] obtain s v1 a v2 p where
    f: "newSiteFace s v = Inr v1" and a: "a \<in> set (arcs t)"
    and rc: "removeCircleEvent k (Some a) v1 = Inr v2"
    and ia: "insertArc G a s v2 = Inr p"
    and pr: "probeNewArc k (snd p) (fst p) = Inr v'" by blast
  note n1 = newSiteFace_SweepLine[OF f]
  from assms(2) n1 have t1: "tree_at (nodes v1) None t" "ParabolaTree v1 = Some (rootOf t)"
    and d: "distinct (addrs t)" by (simp_all add: holds_tree_def)
  have da: "distinct (arcs t)" using distinct_addrs_arcs[OF d] by simp
  from removeCircleEvent_links[OF rc] have l2: "map links (nodes v2) = map links (nodes v1)"
    "ParabolaTree v2 = ParabolaTree v1" by (simp_all add: same_links_def)
  have t2: "tree_at (nodes v2) None t" using tree_at_links[OF l2(1)] t1(1) by simp
  have len2: "length (nodes v2) = ?L" using map_links_length[OF l2(1)] n1 by simp
  have al: "a < length (nodes v2)" using tree_at_arc[OF t2 a] by simp
  let ?t' = "splitTree a (?L + 1) (?L + 3) (?L + 2) ?L t"
  from insertArc_tree[OF ia t2 a d] len2 l2(2) t1(2)
  have t3: "tree_at (nodes (fst p)) None ?t'" "snd p = ?L + 2"
    "ParabolaTree (fst p) = Some (rootOf t)" by simp_all
  from probeNewArc_links[OF pr] have l4: "map links (nodes v') = map links (nodes (fst p))"
    "ParabolaTree v' = ParabolaTree (fst p)" by (simp_all add: same_links_def)
  have "\<And>x. x \<in> set (addrs t) \<Longrightarrow> x < ?L"
    using tree_at_addrs[OF assms(2)[unfolded holds_tree_def, THEN conjunct2, THEN conjunct1]] .
  then have fresh: "set (addrs t) \<inter> {?L + 1, ?L + 3, ?L + 2, ?L} = {}" by fastforce
  have d': "distinct (addrs ?t')"
    by (rule distinct_splitTree[OF d a _ fresh]) simp
  have h: "holds_tree v' ?t'"
    using t3 l4 tree_at_links[OF l4(1)] d' by (simp add: holds_tree_def)
  from arcs_splitTree_list[OF a da, of "?L + 1" "?L + 3" "?L + 2" ?L] obtain pre suf where
    ar: "arcs ?t' = pre @ (?L + 3) # (?L + 2) # ?L # suf" by blast
  note pc = probeNewArc_copies[OF pr[unfolded t3(2)] t3(1) d' ar]
  note ic = insertArc_copies[OF ia al, unfolded len2]
  note rca = removeCircleEvent_arc[OF rc t1(1) d a]
  from pc[of "?L + 3"] pc[of ?L] ic rca n1 h a show ?thesis
    by (intro bexI[of _ a]) simp_all
qed

theorem split_copies_inherit_witness:
  "handleSiteEvent flat_geometry 5 1 registered_state
     = Inr (registered_state_after\<lparr>EventQueue := [0, 1], SweepLine := 5,
              events := events registered_state\<rparr>)
   \<and> holds_tree registered_state three_arcs
   \<and> (\<exists>a \<in> set (arcs three_arcs).
         holds_tree (registered_state_after\<lparr>EventQueue := [0, 1], SweepLine := 5,
              events := events registered_state\<rparr>) (splitTree a 6 8 7 5 three_arcs)
       \<and> Site (nodes registered_state_after ! 8) = Site (nodes registered_state ! a)
       \<and> LeftEdges (nodes registered_state_after ! 8) = LeftEdges (nodes registered_state ! a)
       \<and> RightEvents (nodes registered_state_after ! 8) = RightEvents (nodes registered_state ! a)
       \<and> LeftEvents (nodes registered_state_after ! 8) = []
       \<and> Site (nodes registered_state_after ! 5) = Site (nodes registered_state ! a)
       \<and> RightEdges (nodes registered_state_after ! 5) = RightEdges (nodes registered_state ! a)
       \<and> LeftEvents (nodes registered_state_after ! 5) = LeftEvents (nodes registered_state ! a)
       \<and> RightEvents (nodes registered_state_after ! 5) = [])"
proof -
  have len: "length (nodes registered_state) = 5" by (simp add: registered_state_def)
  from split_copies_inherit[OF registered_site_event holds_registered(1)]
    registered_site_event holds_registered(1)
  show ?thesis by (simp add: len)
qed

text \<open>
  C3 as stated fails. In \<open>registered_state\<close> the first arc (node 2) is the first arc of
  the queued circle event, which is in its \<open>LeftEvents\<close>. The step splits that arc: the
  left copy (node 8) ends with no \<open>LeftEvents\<close>, the event is in \<open>LeftEvents\<close> of the right
  copy (node 5).
\<close>

theorem left_copy_without_LeftEvents:
  "HandleNextEvent flat_geometry 5 registered_state = Inr registered_state_after
   \<and> holds_tree registered_state three_arcs
   \<and> arcs three_arcs = [2, 3, 4]
   \<and> holds_tree registered_state_after (splitTree 2 6 8 7 5 three_arcs)
   \<and> arcs (splitTree 2 6 8 7 5 three_arcs) = [8, 7, 5, 3, 4]
   \<and> LeftEvents (nodes registered_state ! 2) = [0]
   \<and> RightEvents (nodes registered_state ! 2) = []
   \<and> LeftEvents (nodes registered_state_after ! 8) = []
   \<and> LeftEvents (nodes registered_state_after ! 5) = [0]"
  using registered_step holds_registered
  by (simp add: holds_tree_def three_arcs_def registered_state_def registered_state_after_def
      newNode_def)

end
